theory Spec2Isabelle
  imports Main "HOL-Library.Word" "HOL-Library.Multiset" "HOL-Library.AList"
begin

unbundle bit_operations_syntax

section \<open>Strings and shared records (src/src/types.ts)\<close>

text \<open>
  A string of the source is a sequence of UTF-16 code units. \<open>js\<close> embeds an ASCII
  literal.
\<close>

type_synonym jsstring = "16 word list"

definition js :: "string \<Rightarrow> jsstring" where
  "js s = map of_char s"

text \<open>
  Field names shared by several interfaces of the source (\<open>id\<close>, \<open>activityId\<close>,
  \<open>sessionId\<close>) carry a prefix here: \<open>p_\<close> for Photo, \<open>e_\<close> for Event, \<open>ps_\<close> for
  ParticipantSession.
\<close>

record Photo =
  p_id :: jsstring
  p_activityId :: jsstring
  p_sessionId :: jsstring
  driveFileId :: jsstring
  thumbnailUrl :: jsstring
  fullUrl :: jsstring
  uploadedAt :: int
  width :: "int option"
  height :: "int option"

section \<open>Rate limiter (src/src/utils/rateLimiter.ts)\<close>

text \<open>
  Timestamps are the integer millisecond values of \<open>Date.now()\<close>; they are modelled as
  \<open>int\<close>. \<open>Math.min()\<close> and \<open>Math.max()\<close> of no arguments are the two infinities of
  the number type, so the result of the retry computation is a \<open>jsnum\<close>.
\<close>

datatype jsnum = Num int | PosInfinity | NegInfinity

datatype action_kind = KPhoto | KDanmaku

record RateLimitState =
  photoUploads :: "int list"
  danmakuSends :: "int list"

record RateLimitConfig =
  photoLimit :: int
  photoWindow :: int
  danmakuLimit :: int
  danmakuWindow :: int

record RateLimitResult =
  allowed :: bool
  retryAfter :: "jsnum option"

definition DEFAULT_RATE_LIMIT_CONFIG :: RateLimitConfig where
  "DEFAULT_RATE_LIMIT_CONFIG =
     \<lparr>photoLimit = 20, photoWindow = 60000, danmakuLimit = 1, danmakuWindow = 2000\<rparr>"

definition Math_min :: "int list \<Rightarrow> jsnum" where
  "Math_min xs = (case xs of [] \<Rightarrow> PosInfinity | y # ys \<Rightarrow> Num (fold min ys y))"

definition Math_max :: "int list \<Rightarrow> jsnum" where
  "Math_max xs = (case xs of [] \<Rightarrow> NegInfinity | y # ys \<Rightarrow> Num (fold max ys y))"

text \<open>\<open>window - (now - v)\<close> in the arithmetic of the number type.\<close>

definition retry_of :: "int \<Rightarrow> int \<Rightarrow> jsnum \<Rightarrow> jsnum" where
  "retry_of window now v =
     (case v of Num t \<Rightarrow> Num (window - (now - t))
      | PosInfinity \<Rightarrow> PosInfinity
      | NegInfinity \<Rightarrow> NegInfinity)"

definition checkRateLimit ::
  "RateLimitState \<Rightarrow> action_kind \<Rightarrow> RateLimitConfig \<Rightarrow> int \<Rightarrow> RateLimitResult" where
  "checkRateLimit state kind config now =
     (case kind of
        KPhoto \<Rightarrow>
          (let recentUploads = filter (\<lambda>t. now - t < photoWindow config) (photoUploads state)
           in if int (length recentUploads) \<ge> photoLimit config
              then \<lparr>allowed = False,
                    retryAfter = Some (retry_of (photoWindow config) now (Math_min recentUploads))\<rparr>
              else \<lparr>allowed = True, retryAfter = None\<rparr>)
      | KDanmaku \<Rightarrow>
          (let recentSends = filter (\<lambda>t. now - t < danmakuWindow config) (danmakuSends state)
           in if int (length recentSends) \<ge> danmakuLimit config
              then \<lparr>allowed = False,
                    retryAfter = Some (retry_of (danmakuWindow config) now (Math_max recentSends))\<rparr>
              else \<lparr>allowed = True, retryAfter = None\<rparr>))"

definition recordAction ::
  "RateLimitState \<Rightarrow> action_kind \<Rightarrow> RateLimitConfig \<Rightarrow> int \<Rightarrow> RateLimitState" where
  "recordAction state kind config now =
     (case kind of
        KPhoto \<Rightarrow>
          state\<lparr>photoUploads :=
                  filter (\<lambda>t. now - t < photoWindow config) (photoUploads state) @ [now]\<rparr>
      | KDanmaku \<Rightarrow>
          state\<lparr>danmakuSends :=
                  filter (\<lambda>t. now - t < danmakuWindow config) (danmakuSends state) @ [now]\<rparr>)"

definition createRateLimitState :: RateLimitState where
  "createRateLimitState = \<lparr>photoUploads = [], danmakuSends = []\<rparr>"

text \<open>The entries of a log that lie within a window of length \<open>w\<close> at time \<open>now\<close>.\<close>

definition in_window :: "int \<Rightarrow> int \<Rightarrow> int list \<Rightarrow> int list" where
  "in_window w now log = filter (\<lambda>t. now - t < w) log"

section \<open>Playlist scheduler (playlist methods of the EventRoom class, src/unnamed/part_000)\<close>

text \<open>
  The class fields \<open>playlistQueue\<close> and \<open>currentPlaylistIndex\<close>, together with what the
  playlist methods emit: the \<open>play_photo\<close> message handed to \<open>broadcast\<close> and the lines
  written by \<open>console.log\<close>. \<open>draws\<close> counts the calls of \<open>Math.random()\<close> made so far.
\<close>

datatype playlist_event =
    Broadcast_play_photo "Photo option" nat nat int
  | Log_added nat nat
  | Log_reshuffled nat

record Playlist =
  playlistQueue :: "Photo list"
  currentPlaylistIndex :: nat
  draws :: nat
  emitted :: "playlist_event list"

definition empty_playlist :: Playlist where
  "empty_playlist = \<lparr>playlistQueue = [], currentPlaylistIndex = 0, draws = 0, emitted = []\<rparr>"

text \<open>\<open>[a[i], a[j]] = [a[j], a[i]]\<close>: both reads happen before both writes.\<close>

definition swap_at :: "nat \<Rightarrow> nat \<Rightarrow> 'a list \<Rightarrow> 'a list" where
  "swap_at i j xs = (xs[i := xs ! j])[j := xs ! i]"

text \<open>
  The random source is a parameter: \<open>random k\<close> stands for the \<open>k\<close>-th call of
  \<open>Math.random()\<close>, and \<open>Math.floor(Math.random() * (i + 1))\<close>, a number from \<open>0\<close> to
  \<open>i\<close>, is \<open>random k mod (i + 1)\<close>. The loop of \<open>shuffleArray\<close> runs \<open>i\<close> from
  \<open>length - 1\<close> down to \<open>1\<close>.
\<close>

fun shuffle_loop :: "(nat \<Rightarrow> nat) \<Rightarrow> nat \<Rightarrow> nat \<Rightarrow> 'a list \<Rightarrow> 'a list" where
  "shuffle_loop random k 0 shuffled = shuffled"
| "shuffle_loop random k (Suc i) shuffled =
     (let j = random k mod (Suc i + 1)
      in shuffle_loop random (Suc k) i (swap_at (Suc i) j shuffled))"

definition shuffleArray :: "(nat \<Rightarrow> nat) \<Rightarrow> nat \<Rightarrow> 'a list \<Rightarrow> 'a list" where
  "shuffleArray random k array = shuffle_loop random k (length array - 1) array"

text \<open>\<open>splice(insertIndex, 0, photo)\<close> clamps an index beyond the end to the end.\<close>

definition addToPlaylist :: "Photo \<Rightarrow> Playlist \<Rightarrow> Playlist" where
  "addToPlaylist photo s =
     (if list_ex (\<lambda>p. p_id p = p_id photo) (playlistQueue s) then s
      else
        (let insertIndex = currentPlaylistIndex s + 1;
             q = take insertIndex (playlistQueue s) @ [photo] @ drop insertIndex (playlistQueue s)
         in s\<lparr>playlistQueue := q,
              emitted := emitted s @ [Log_added insertIndex (length q)]\<rparr>))"

definition reshufflePlaylist :: "(nat \<Rightarrow> nat) \<Rightarrow> Playlist \<Rightarrow> Playlist" where
  "reshufflePlaylist random s =
     (let q = shuffleArray random (draws s) (playlistQueue s)
      in s\<lparr>playlistQueue := q,
           currentPlaylistIndex := 0,
           draws := draws s + (length (playlistQueue s) - 1),
           emitted := emitted s @ [Log_reshuffled (length q)]\<rparr>)"

definition advancePlayback :: "(nat \<Rightarrow> nat) \<Rightarrow> int \<Rightarrow> Playlist \<Rightarrow> Playlist" where
  "advancePlayback random now s =
     (if length (playlistQueue s) = 0 then s
      else
        (let currentPhoto =
               (if currentPlaylistIndex s < length (playlistQueue s)
                then Some (playlistQueue s ! currentPlaylistIndex s) else None);
             s1 = s\<lparr>emitted := emitted s @
                    [Broadcast_play_photo currentPhoto (currentPlaylistIndex s)
                       (length (playlistQueue s)) now]\<rparr>;
             s2 = s1\<lparr>currentPlaylistIndex := currentPlaylistIndex s1 + 1\<rparr>
         in if currentPlaylistIndex s2 \<ge> length (playlistQueue s2)
            then reshufflePlaylist random s2 else s2))"

text \<open>The scenario of the playlist claims: insert the photos in order, then tick the timer.\<close>

definition insert_all :: "Photo list \<Rightarrow> Playlist \<Rightarrow> Playlist" where
  "insert_all inserted s = foldl (\<lambda>st p. addToPlaylist p st) s inserted"

definition advance_all :: "(nat \<Rightarrow> nat) \<Rightarrow> int list \<Rightarrow> Playlist \<Rightarrow> Playlist" where
  "advance_all random ticks s = foldl (\<lambda>st t. advancePlayback random t st) s ticks"

fun is_reshuffle :: "playlist_event \<Rightarrow> bool" where
  "is_reshuffle (Log_reshuffled n) = True"
| "is_reshuffle e = False"

definition reshuffles :: "Playlist \<Rightarrow> nat" where
  "reshuffles s = length (filter is_reshuffle (emitted s))"

text \<open>A photo record for concrete runs.\<close>

definition example_photo :: "string \<Rightarrow> string \<Rightarrow> Photo" where
  "example_photo i f =
     \<lparr>p_id = js i, p_activityId = js ''evt'', p_sessionId = js ''upload'', driveFileId = js f,
      thumbnailUrl = js ''https://t'', fullUrl = js ''https://f'', uploadedAt = 0,
      width = None, height = None\<rparr>"

section \<open>Profanity filter and validation (src/src/utils/profanityFilter.ts, src/src/utils/validation.ts)\<close>

text \<open>
  Two functions of the platform are parameters of the model: \<open>toLowerCase\<close>, the case
  mapping of \<open>String.prototype.toLowerCase\<close>, and \<open>canonicalize\<close>, the per-character
  case folding that a regular expression with the \<open>i\<close> flag applies to pattern and input.
\<close>

record platform =
  toLowerCase :: "jsstring \<Rightarrow> jsstring"
  canonicalize :: "16 word \<Rightarrow> 16 word"

text \<open>White space and line terminators, as \<open>String.prototype.trim\<close> removes them.\<close>

definition is_js_whitespace :: "16 word \<Rightarrow> bool" where
  "is_js_whitespace c =
     (c \<in> set [0x9, 0xA, 0xB, 0xC, 0xD, 0x20, 0xA0, 0x1680, 0x2028, 0x2029,
                   0x202F, 0x205F, 0x3000, 0xFEFF]
      \<or> (0x2000 \<le> c \<and> c \<le> 0x200A))"

definition trim :: "jsstring \<Rightarrow> jsstring" where
  "trim s = rev (dropWhile is_js_whitespace (rev (dropWhile is_js_whitespace s)))"

fun starts_with :: "'a list \<Rightarrow> 'a list \<Rightarrow> bool" where
  "starts_with s [] = True"
| "starts_with [] (w # ws) = False"
| "starts_with (x # xs) (w # ws) = (x = w \<and> starts_with xs ws)"

fun includes_str :: "'a list \<Rightarrow> 'a list \<Rightarrow> bool" where
  "includes_str [] w = (w = [])"
| "includes_str (x # xs) w = (starts_with (x # xs) w \<or> includes_str xs w)"

definition join :: "jsstring \<Rightarrow> jsstring list \<Rightarrow> jsstring" where
  "join sep xs = (case xs of [] \<Rightarrow> [] | y # ys \<Rightarrow> y @ concat (map (\<lambda>z. sep @ z) ys))"

definition BLACKLIST :: "jsstring list" where
  "BLACKLIST =
     [[0x5E79], [0x64CD], [0x9760, 0x5317], [0x767D, 0x7661], [0x7B28, 0x86CB],
      [0x5783, 0x573E], js ''fuck'', js ''shit'', js ''damn'']"

definition containsProfanity :: "platform \<Rightarrow> jsstring \<Rightarrow> bool" where
  "containsProfanity pf content =
     (let normalized = trim (toLowerCase pf content)
      in list_ex (\<lambda>word. includes_str normalized (toLowerCase pf word)) BLACKLIST)"

text \<open>
  \<open>new RegExp(word, 'gi')\<close> for a word without pattern characters: a match is an
  occurrence of the word up to \<open>canonicalize\<close>. \<open>test\<close> looks for one occurrence;
  \<open>replace\<close> rewrites every occurrence, left to right and without overlap, to as many
  asterisks as the word has code units (the words of the blacklist are not empty).
\<close>

fun matches_here :: "(16 word \<Rightarrow> 16 word) \<Rightarrow> jsstring \<Rightarrow> jsstring \<Rightarrow> bool" where
  "matches_here cn [] s = True"
| "matches_here cn (w # ws) [] = False"
| "matches_here cn (w # ws) (x # xs) = (cn w = cn x \<and> matches_here cn ws xs)"

fun regex_test :: "(16 word \<Rightarrow> 16 word) \<Rightarrow> jsstring \<Rightarrow> jsstring \<Rightarrow> bool" where
  "regex_test cn w [] = matches_here cn w []"
| "regex_test cn w (x # xs) = (matches_here cn w (x # xs) \<or> regex_test cn w xs)"

fun regex_replace :: "(16 word \<Rightarrow> 16 word) \<Rightarrow> jsstring \<Rightarrow> nat \<Rightarrow> jsstring \<Rightarrow> jsstring" where
  "regex_replace cn w k [] = []"
| "regex_replace cn w (Suc k) (x # xs) = 0x2A # regex_replace cn w k xs"
| "regex_replace cn w 0 (x # xs) =
     (if matches_here cn w (x # xs) then 0x2A # regex_replace cn w (length w - 1) xs
      else x # regex_replace cn w 0 xs)"

record FilterResult =
  clean :: bool
  filtered :: jsstring

definition filter_step :: "platform \<Rightarrow> jsstring \<Rightarrow> FilterResult \<Rightarrow> FilterResult" where
  "filter_step pf word r =
     (if regex_test (canonicalize pf) word (filtered r)
      then \<lparr>clean = False, filtered = regex_replace (canonicalize pf) word 0 (filtered r)\<rparr>
      else r)"

definition filterProfanity :: "platform \<Rightarrow> jsstring \<Rightarrow> FilterResult" where
  "filterProfanity pf content =
     foldl (\<lambda>r word. filter_step pf word r) \<lparr>clean = True, filtered = content\<rparr> BLACKLIST"

record Validation =
  valid :: bool
  errors :: "jsstring list"

definition validateDanmakuContent :: "platform \<Rightarrow> jsstring \<Rightarrow> Validation" where
  "validateDanmakuContent pf content =
     (let errs =
            (if content = [] \<or> length (trim content) = 0
             then [js ''Danmaku content cannot be empty''] else [])
          @ (if length content > 50
             then [js ''Danmaku content exceeds 50 characters''] else [])
          @ (if containsProfanity pf content
             then [js ''Danmaku contains inappropriate content''] else [])
      in \<lparr>valid = (length errs = 0), errors = errs\<rparr>)"

text \<open>\<open>/^[\w-]{20,}$/\<close>: at least twenty code units, each a letter, a digit, \<open>_\<close> or \<open>-\<close>.\<close>

definition is_word_or_dash :: "16 word \<Rightarrow> bool" where
  "is_word_or_dash c =
     ((0x41 \<le> c \<and> c \<le> 0x5A) \<or> (0x61 \<le> c \<and> c \<le> 0x7A) \<or> (0x30 \<le> c \<and> c \<le> 0x39)
      \<or> c = 0x5F \<or> c = 0x2D)"

definition drive_id_like :: "jsstring \<Rightarrow> bool" where
  "drive_id_like s = (length s \<ge> 20 \<and> list_all is_word_or_dash s)"

definition validatePhotoUpload :: "jsstring \<Rightarrow> jsstring \<Rightarrow> jsstring \<Rightarrow> Validation" where
  "validatePhotoUpload fileId thumb full =
     (let errs =
            (if fileId = [] \<or> \<not> drive_id_like fileId
             then [js ''Invalid Google Drive file ID''] else [])
          @ (if thumb = [] \<or> \<not> starts_with thumb (js ''https://'')
             then [js ''Invalid thumbnail URL''] else [])
          @ (if full = [] \<or> \<not> starts_with full (js ''https://'')
             then [js ''Invalid full URL''] else [])
      in \<lparr>valid = (length errs = 0), errors = errs\<rparr>)"

text \<open>
  An instance of the platform for concrete runs: the case mappings restricted to the
  ASCII letters, every other code unit left as it is.
\<close>

definition ascii_lower :: "16 word \<Rightarrow> 16 word" where
  "ascii_lower c = (if 0x41 \<le> c \<and> c \<le> 0x5A then c + 0x20 else c)"

definition ascii_upper :: "16 word \<Rightarrow> 16 word" where
  "ascii_upper c = (if 0x61 \<le> c \<and> c \<le> 0x7A then c - 0x20 else c)"

definition ascii_platform :: platform where
  "ascii_platform = \<lparr>toLowerCase = map ascii_lower, canonicalize = ascii_upper\<rparr>"

section \<open>Identifier codec (utils/crypto, at src/src/utils/profanityFilter.ts lines 80 to 133)\<close>

datatype js_error = InvalidCharacterError | TypeError

definition KEY :: jsstring where
  "KEY = js ''memento-secret-key-2024''"

text \<open>
  The loop shared by both directions: code unit \<open>i\<close> of the text is combined by XOR with
  code unit \<open>i mod KEY.length\<close> of the key.
\<close>

definition xor_with_key :: "jsstring \<Rightarrow> jsstring" where
  "xor_with_key text = map (\<lambda>(i, c). c XOR (KEY ! (i mod length KEY))) (enumerate 0 text)"

text \<open>
  \<open>btoa\<close> and \<open>atob\<close> are functions of the platform; they are modelled after the HTML
  standard. \<open>btoa\<close> raises on a code unit above \<open>0xFF\<close> and otherwise encodes the code
  units as bytes, three bytes to four characters, padded with \<open>=\<close>.
\<close>

definition b64_char :: "nat \<Rightarrow> 16 word" where
  "b64_char n =
     (if n < 26 then of_nat (65 + n)
      else if n < 52 then of_nat (71 + n)
      else if n < 62 then of_nat (n - 4)
      else if n = 62 then 0x2B
      else 0x2F)"

fun b64enc :: "nat list \<Rightarrow> jsstring" where
  "b64enc [] = []"
| "b64enc [a] = [b64_char (a div 4), b64_char ((a mod 4) * 16), 0x3D, 0x3D]"
| "b64enc [a, b] =
     [b64_char (a div 4), b64_char ((a mod 4) * 16 + b div 16), b64_char ((b mod 16) * 4), 0x3D]"
| "b64enc (a # b # c # rest) =
     [b64_char (a div 4), b64_char ((a mod 4) * 16 + b div 16),
      b64_char ((b mod 16) * 4 + c div 64), b64_char (c mod 64)] @ b64enc rest"

definition btoa :: "jsstring \<Rightarrow> js_error + jsstring" where
  "btoa s = (if list_ex (\<lambda>c. c > 0xFF) s then Inl InvalidCharacterError
             else Inr (b64enc (map unat s)))"

text \<open>
  \<open>atob\<close>: ASCII white space is removed; when the length is a multiple of four, one or
  two \<open>=\<close> at the end are removed; a length of one modulo four, or a character outside
  the alphabet, raises; the rest is decoded six bits per character, the surplus bits of
  an incomplete last group being dropped.
\<close>

definition b64_val :: "16 word \<Rightarrow> nat option" where
  "b64_val c =
     (if 0x41 \<le> c \<and> c \<le> 0x5A then Some (unat c - 65)
      else if 0x61 \<le> c \<and> c \<le> 0x7A then Some (unat c - 71)
      else if 0x30 \<le> c \<and> c \<le> 0x39 then Some (unat c + 4)
      else if c = 0x2B then Some 62
      else if c = 0x2F then Some 63
      else None)"

fun b64dec :: "nat list \<Rightarrow> nat list" where
  "b64dec (a # b # c # d # rest) =
     [a * 4 + b div 16, (b mod 16) * 16 + c div 4, (c mod 4) * 64 + d] @ b64dec rest"
| "b64dec [a, b, c] = [a * 4 + b div 16, (b mod 16) * 16 + c div 4]"
| "b64dec [a, b] = [a * 4 + b div 16]"
| "b64dec xs = []"

fun all_vals :: "jsstring \<Rightarrow> nat list option" where
  "all_vals [] = Some []"
| "all_vals (c # cs) =
     (case b64_val c of None \<Rightarrow> None
      | Some v \<Rightarrow> (case all_vals cs of None \<Rightarrow> None | Some vs \<Rightarrow> Some (v # vs)))"

definition is_ascii_whitespace :: "16 word \<Rightarrow> bool" where
  "is_ascii_whitespace c = (c = 0x9 \<or> c = 0xA \<or> c = 0xC \<or> c = 0xD \<or> c = 0x20)"

definition strip_padding :: "jsstring \<Rightarrow> jsstring" where
  "strip_padding d =
     (if length d mod 4 = 0 \<and> d \<noteq> [] \<and> last d = 0x3D
      then (if butlast d \<noteq> [] \<and> last (butlast d) = 0x3D then butlast (butlast d) else butlast d)
      else d)"

definition atob :: "jsstring \<Rightarrow> js_error + jsstring" where
  "atob s =
     (let d = strip_padding (filter (\<lambda>c. \<not> is_ascii_whitespace c) s)
      in if length d mod 4 = 1 then Inl InvalidCharacterError
         else (case all_vals d of None \<Rightarrow> Inl InvalidCharacterError
               | Some vs \<Rightarrow> Inr (map of_nat (b64dec vs))))"

definition replace_all :: "16 word \<Rightarrow> 16 word \<Rightarrow> jsstring \<Rightarrow> jsstring" where
  "replace_all a b s = map (\<lambda>c. if c = a then b else c) s"

definition strip_trailing_eq :: "jsstring \<Rightarrow> jsstring" where
  "strip_trailing_eq s = rev (dropWhile (\<lambda>c. c = 0x3D) (rev s))"

definition encryptId :: "jsstring \<Rightarrow> js_error + jsstring" where
  "encryptId text =
     (if text = [] then Inr []
      else (case btoa (xor_with_key text) of
              Inl e \<Rightarrow> Inl e
            | Inr b \<Rightarrow> Inr (strip_trailing_eq (replace_all 0x2F 0x5F (replace_all 0x2B 0x2D b)))))"

text \<open>An exception inside \<open>decryptId\<close> is caught there and turned into the empty string.\<close>

definition decryptId :: "jsstring \<Rightarrow> jsstring" where
  "decryptId encryptedText =
     (if encryptedText = [] then []
      else
        (let base64 = replace_all 0x5F 0x2F (replace_all 0x2D 0x2B encryptedText);
             pad = length base64 mod 4;
             padded = (if pad \<noteq> 0 then base64 @ replicate (4 - pad) 0x3D else base64)
         in case atob padded of Inl e \<Rightarrow> [] | Inr text \<Rightarrow> xor_with_key text))"

text \<open>\<open>decryptId(encryptId(x))\<close>: the exception of \<open>encryptId\<close> propagates.\<close>

definition roundtrip :: "jsstring \<Rightarrow> js_error + jsstring" where
  "roundtrip x = (case encryptId x of Inl e \<Rightarrow> Inl e | Inr y \<Rightarrow> Inr (decryptId y))"

text \<open>
  The six-bit groups that \<open>btoa\<close> writes for a list of bytes, and the number of \<open>=\<close> it
  appends; they describe the output of \<open>b64enc\<close> in the proofs.
\<close>

fun sextets :: "nat list \<Rightarrow> nat list" where
  "sextets [] = []"
| "sextets [a] = [a div 4, (a mod 4) * 16]"
| "sextets [a, b] = [a div 4, (a mod 4) * 16 + b div 16, (b mod 16) * 4]"
| "sextets (a # b # c # rest) =
     [a div 4, (a mod 4) * 16 + b div 16, (b mod 16) * 4 + c div 64, c mod 64] @ sextets rest"

fun npad :: "nat list \<Rightarrow> nat" where
  "npad [] = 0"
| "npad [a] = 2"
| "npad [a, b] = 1"
| "npad (a # b # c # rest) = npad rest"

text \<open>
  The two chains of \<open>replace\<close> calls, character by character, and the facts about a
  character of the alphabet that the round trip needs.
\<close>

definition url_safe :: "16 word \<Rightarrow> 16 word" where
  "url_safe c = (if (if c = 0x2B then 0x2D else c) = 0x2F then 0x5F
                 else (if c = 0x2B then 0x2D else c))"

definition url_unsafe :: "16 word \<Rightarrow> 16 word" where
  "url_unsafe c = (if (if c = 0x2D then 0x2B else c) = 0x5F then 0x2F
                   else (if c = 0x2D then 0x2B else c))"

definition alphabet_ok :: "nat \<Rightarrow> bool" where
  "alphabet_ok n =
     (b64_val (b64_char n) = Some n \<and> b64_char n \<noteq> 0x3D
      \<and> \<not> is_ascii_whitespace (b64_char n)
      \<and> url_unsafe (url_safe (b64_char n)) = b64_char n
      \<and> url_safe (b64_char n) \<noteq> 0x3D)"

section \<open>Event room (class EventRoom, src/src/durableObjects/EventRoom.ts)\<close>

text \<open>
  The class as it stands at lines 757 to 1599 of the file: the version with the dedup
  index \<open>driveFileIdSet\<close>, \<open>handleNotifyPhoto\<close> and \<open>broadcastToDisplays\<close>.
\<close>

datatype Status = Active | Ended

datatype Role = Participant | Display

record Event =
  e_id :: jsstring
  e_title :: "jsstring option"
  createdAt :: int
  expiresAt :: "int option"
  status :: Status
  driveFolderId :: jsstring
  displayPassword :: "jsstring option"
  photoCount :: nat
  participantCount :: nat

record ParticipantSession =
  ps_id :: jsstring
  ps_activityId :: jsstring
  joinedAt :: int
  role :: Role
  isActive :: bool

text \<open>A socket object is known by its identity.\<close>

datatype WebSocket = WebSocket nat

record PhotoAddedMessage =
  m_driveFileId :: jsstring
  m_thumbnailUrl :: jsstring
  m_fullUrl :: jsstring
  m_width :: "int option"
  m_height :: "int option"

datatype ClientMessage =
    Join jsstring "Role option"
  | Photo_added PhotoAddedMessage
  | Danmaku jsstring
  | Ping
  | Other_type

datatype ServerMessage =
    Joined jsstring "Photo list" int "jsstring option"
  | Photo_added_msg Photo
  | Danmaku_msg jsstring jsstring jsstring int
  | Activity_ended jsstring jsstring int
  | Pong
  | Error_msg jsstring jsstring "jsnum option"

text \<open>
  What a handler does to the sockets: the calls of \<open>ws.send\<close> and \<open>ws.close\<close> it makes,
  in order.
\<close>

datatype effect = Send WebSocket ServerMessage | Close WebSocket nat jsstring

datatype body =
    Error_body jsstring
  | Event_body Event
  | Snapshot_body Event "Photo list" nat
  | Success_event_body Event
  | Success_duplicate_body
  | Success_photo_body Photo
  | Text_body jsstring
  | Upgrade_body WebSocket

record Response =
  http_status :: nat
  http_body :: body

text \<open>
  The fields of the class. Each \<open>Map\<close> is an association list in insertion order;
  \<open>readyState\<close> is the \<open>readyState\<close> property of every socket object.
\<close>

record EventRoom =
  event :: "Event option"
  photos :: "Photo list"
  driveFileIdSet :: "jsstring set"
  sessions :: "(jsstring \<times> WebSocket) list"
  sessionMetadata :: "(jsstring \<times> ParticipantSession) list"
  rateLimitState :: "(jsstring \<times> RateLimitState) list"
  wsToSessionId :: "(WebSocket \<times> jsstring) list"
  syncInterval :: "nat option"
  readyState :: "WebSocket \<Rightarrow> nat"

definition new_room :: "(WebSocket \<Rightarrow> nat) \<Rightarrow> EventRoom" where
  "new_room rs =
     \<lparr>event = None, photos = [], driveFileIdSet = {}, sessions = [], sessionMetadata = [],
      rateLimitState = [], wsToSessionId = [], syncInterval = Some 1, readyState = rs\<rparr>"

definition map_set :: "'k \<Rightarrow> 'v \<Rightarrow> ('k \<times> 'v) list \<Rightarrow> ('k \<times> 'v) list" where
  "map_set k v m = AList.update k v m"

definition map_delete :: "'k \<Rightarrow> ('k \<times> 'v) list \<Rightarrow> ('k \<times> 'v) list" where
  "map_delete k m = AList.delete k m"

definition map_has :: "'k \<Rightarrow> ('k \<times> 'v) list \<Rightarrow> bool" where
  "map_has k m = (map_of m k \<noteq> None)"

definition OPEN :: nat where
  "OPEN = 1"

definition CLOSING :: nat where
  "CLOSING = 2"

definition broadcast :: "EventRoom \<Rightarrow> ServerMessage \<Rightarrow> effect list" where
  "broadcast s message =
     map (\<lambda>(sessionId, ws). Send ws message)
       (filter (\<lambda>(sessionId, ws). readyState s ws = OPEN) (sessions s))"

definition is_display :: "EventRoom \<Rightarrow> jsstring \<Rightarrow> bool" where
  "is_display s sessionId =
     (case map_of (sessionMetadata s) sessionId of
        None \<Rightarrow> False
      | Some meta \<Rightarrow> role meta = Display)"

definition broadcastToDisplays :: "EventRoom \<Rightarrow> ServerMessage \<Rightarrow> effect list" where
  "broadcastToDisplays s message =
     map (\<lambda>(sessionId, ws). Send ws message)
       (filter (\<lambda>(sessionId, ws). is_display s sessionId \<and> readyState s ws = OPEN) (sessions s))"

definition day_ms :: int where
  "day_ms = 24 * 60 * 60 * 1000"

definition stopPhotoSync :: "EventRoom \<Rightarrow> EventRoom" where
  "stopPhotoSync s = (case syncInterval s of None \<Rightarrow> s | Some t \<Rightarrow> s\<lparr>syncInterval := None\<rparr>)"

text \<open>
  \<open>autoRestartEvent\<close>: \<open>doName\<close> is \<open>this.state.id.name\<close> and \<open>folderName\<close> the outcome
  of the folder name lookup (\<open>None\<close> when it failed). An exception of \<open>encryptId\<close> is
  caught by the enclosing \<open>try\<close> and leaves the event absent.
\<close>

definition autoRestartEvent ::
  "EventRoom \<Rightarrow> jsstring option \<Rightarrow> jsstring option \<Rightarrow> int \<Rightarrow> EventRoom" where
  "autoRestartEvent s doName folderName now =
     (case doName of
        None \<Rightarrow> s
      | Some folderId \<Rightarrow>
          if folderId = [] then s
          else (case encryptId folderId of
                  Inl e \<Rightarrow> s
                | Inr publicId \<Rightarrow>
                    s\<lparr>event := Some
                       \<lparr>e_id = publicId, e_title = folderName, createdAt = now,
                        expiresAt = Some (now + day_ms), status = Active,
                        driveFolderId = folderId, displayPassword = None,
                        photoCount = 0, participantCount = 0\<rparr>\<rparr>))"

definition handleInitEvent ::
  "EventRoom \<Rightarrow> jsstring \<Rightarrow> jsstring option \<Rightarrow> jsstring option \<Rightarrow> int \<Rightarrow> Response \<times> EventRoom" where
  "handleInitEvent s b_id b_title b_driveFolderId now =
     (case event s of
        Some e \<Rightarrow>
          (\<lparr>http_status = 409, http_body = Error_body (js ''Event already initialized'')\<rparr>, s)
      | None \<Rightarrow>
          (case b_driveFolderId of
             None \<Rightarrow>
               (\<lparr>http_status = 400, http_body = Error_body (js ''driveFolderId is required'')\<rparr>, s)
           | Some folderId \<Rightarrow>
               if folderId = []
               then (\<lparr>http_status = 400,
                      http_body = Error_body (js ''driveFolderId is required'')\<rparr>, s)
               else
                 (let e = \<lparr>e_id = b_id, e_title = b_title, createdAt = now,
                           expiresAt = Some (now + day_ms), status = Active,
                           driveFolderId = folderId, displayPassword = None,
                           photoCount = 0, participantCount = 0\<rparr>
                  in (\<lparr>http_status = 200, http_body = Event_body e\<rparr>, s\<lparr>event := Some e\<rparr>))))"

definition handleGetEvent ::
  "EventRoom \<Rightarrow> jsstring option \<Rightarrow> jsstring option \<Rightarrow> int \<Rightarrow> Response \<times> EventRoom" where
  "handleGetEvent s doName folderName now =
     (let s1 = (if event s = None then autoRestartEvent s doName folderName now else s)
      in case event s1 of
           None \<Rightarrow> (\<lparr>http_status = 404, http_body = Error_body (js ''Event not found'')\<rparr>, s1)
         | Some e \<Rightarrow>
             (let e1 = e\<lparr>participantCount := length (sessionMetadata s1)\<rparr>
              in (\<lparr>http_status = 200,
                   http_body = Snapshot_body e1 (photos s1) (length (sessions s1))\<rparr>,
                  s1\<lparr>event := Some e1\<rparr>)))"

definition handleEndEvent :: "EventRoom \<Rightarrow> int \<Rightarrow> Response \<times> EventRoom \<times> effect list" where
  "handleEndEvent s now =
     (case event s of
        None \<Rightarrow> (\<lparr>http_status = 404, http_body = Error_body (js ''Event not found'')\<rparr>, s, [])
      | Some e \<Rightarrow>
          (let e1 = e\<lparr>status := Ended\<rparr>;
               s1 = stopPhotoSync (s\<lparr>event := Some e1\<rparr>);
               sent = broadcast s1
                        (Activity_ended (e_id e1) (js ''Host ended the event'') now);
               closed = map (\<lambda>(sessionId, ws). Close ws 1000 (js ''Event ended'')) (sessions s1);
               s2 = s1\<lparr>readyState :=
                          (\<lambda>ws. if ws \<in> snd ` set (sessions s1) then CLOSING else readyState s1 ws),
                        sessions := [], sessionMetadata := [], rateLimitState := [],
                        wsToSessionId := []\<rparr>
           in (\<lparr>http_status = 200, http_body = Success_event_body e1\<rparr>, s2, sent @ closed)))"

record NotifyBody =
  n_driveFileId :: jsstring
  n_thumbnailUrl :: jsstring
  n_fullUrl :: jsstring
  n_width :: "int option"
  n_height :: "int option"

text \<open>\<open>ulid\<close> is the value of \<open>generateULID()\<close>, \<open>now\<close> that of \<open>Date.now()\<close>.\<close>

definition handleNotifyPhoto ::
  "EventRoom \<Rightarrow> NotifyBody \<Rightarrow> jsstring \<Rightarrow> int \<Rightarrow> Response \<times> EventRoom \<times> effect list" where
  "handleNotifyPhoto s b ulid now =
     (case event s of
        None \<Rightarrow> (\<lparr>http_status = 400, http_body = Error_body (js ''Event not active'')\<rparr>, s, [])
      | Some e \<Rightarrow>
          if status e \<noteq> Active
          then (\<lparr>http_status = 400, http_body = Error_body (js ''Event not active'')\<rparr>, s, [])
          else if n_driveFileId b \<in> driveFileIdSet s
          then (\<lparr>http_status = 200, http_body = Success_duplicate_body\<rparr>, s, [])
          else
            (let photo = \<lparr>p_id = ulid, p_activityId = e_id e, p_sessionId = js ''upload'',
                           driveFileId = n_driveFileId b, thumbnailUrl = n_thumbnailUrl b,
                           fullUrl = n_fullUrl b, uploadedAt = now,
                           width = n_width b, height = n_height b\<rparr>;
                 s1 = s\<lparr>photos := photos s @ [photo],
                        driveFileIdSet := insert (driveFileId photo) (driveFileIdSet s)\<rparr>;
                 s2 = s1\<lparr>event := Some (e\<lparr>photoCount := length (photos s1)\<rparr>)\<rparr>
             in (\<lparr>http_status = 200, http_body = Success_photo_body photo\<rparr>, s2,
                 broadcastToDisplays s2 (Photo_added_msg photo))))"

text \<open>
  \<open>handleWebSocketUpgrade\<close>, up to the registration of the listeners: \<open>server\<close> is the
  server end of the new \<open>WebSocketPair\<close>, accepted and therefore open, and \<open>tempId\<close> the
  placeholder identity.
\<close>

definition handleWebSocketUpgrade ::
  "EventRoom \<Rightarrow> jsstring option \<Rightarrow> jsstring option \<Rightarrow> WebSocket \<Rightarrow> jsstring \<Rightarrow> int
     \<Rightarrow> Response \<times> EventRoom" where
  "handleWebSocketUpgrade s doName folderName server tempId now =
     (let s1 = (if event s = None then autoRestartEvent s doName folderName now else s)
      in case event s1 of
           None \<Rightarrow> (\<lparr>http_status = 404, http_body = Text_body (js ''Event not found'')\<rparr>, s1)
         | Some e \<Rightarrow>
             (let s2 = (if status e = Ended
                        then s1\<lparr>event := Some (e\<lparr>status := Active,
                                                   expiresAt := Some (now + day_ms)\<rparr>)\<rparr>
                        else s1)
              in if length (sessions s2) \<ge> 500
                 then (\<lparr>http_status = 503, http_body = Text_body (js ''Too many connections'')\<rparr>, s2)
                 else
                   (\<lparr>http_status = 101, http_body = Upgrade_body server\<rparr>,
                    s2\<lparr>readyState := (readyState s2)(server := OPEN),
                       sessions := map_set tempId server (sessions s2),
                       wsToSessionId := map_set server tempId (wsToSessionId s2)\<rparr>)))"

subsection \<open>Messages from a socket\<close>

definition invalid_message :: ServerMessage where
  "invalid_message = Error_msg (js ''INVALID_MESSAGE'') (js ''Invalid message format'') None"

text \<open>
  The part of \<open>handlePhotoAdded\<close> after its three checks. \<open>this.event!.id\<close> throws when
  no event is resident, before anything is written.
\<close>

definition photo_added_commit ::
  "EventRoom \<Rightarrow> PhotoAddedMessage \<Rightarrow> jsstring \<Rightarrow> jsstring \<Rightarrow> int
     \<Rightarrow> js_error + (EventRoom \<times> effect list)" where
  "photo_added_commit s message sessionId ulid now =
     (case event s of
        None \<Rightarrow> Inl TypeError
      | Some e \<Rightarrow>
          (let photo = \<lparr>p_id = ulid, p_activityId = e_id e, p_sessionId = sessionId,
                         driveFileId = m_driveFileId message, thumbnailUrl = m_thumbnailUrl message,
                         fullUrl = m_fullUrl message, uploadedAt = now,
                         width = m_width message, height = m_height message\<rparr>;
               s1 = s\<lparr>photos := photos s @ [photo],
                      driveFileIdSet := insert (driveFileId photo) (driveFileIdSet s)\<rparr>;
               s2 = s1\<lparr>event := Some (e\<lparr>photoCount := length (photos s1)\<rparr>)\<rparr>;
               s3 = (case map_of (rateLimitState s) sessionId of
                       None \<Rightarrow> s2
                     | Some state \<Rightarrow>
                         s2\<lparr>rateLimitState :=
                              map_set sessionId
                                (recordAction state KPhoto DEFAULT_RATE_LIMIT_CONFIG now)
                                (rateLimitState s2)\<rparr>)
           in Inr (s3, broadcastToDisplays s3 (Photo_added_msg photo))))"

definition handlePhotoAdded ::
  "EventRoom \<Rightarrow> PhotoAddedMessage \<Rightarrow> jsstring \<Rightarrow> WebSocket \<Rightarrow> jsstring \<Rightarrow> int
     \<Rightarrow> js_error + (EventRoom \<times> effect list)" where
  "handlePhotoAdded s message sessionId ws ulid now =
     (let validation =
            validatePhotoUpload (m_driveFileId message) (m_thumbnailUrl message) (m_fullUrl message)
      in if \<not> valid validation
         then Inr (s, [Send ws (Error_msg (js ''INVALID_PHOTO'')
                                  (join (js '', '') (errors validation)) None)])
         else if m_driveFileId message \<in> driveFileIdSet s
         then Inr (s, [])
         else
           (case map_of (rateLimitState s) sessionId of
              None \<Rightarrow> photo_added_commit s message sessionId ulid now
            | Some state \<Rightarrow>
                (let rateLimitCheck = checkRateLimit state KPhoto DEFAULT_RATE_LIMIT_CONFIG now
                 in if \<not> allowed rateLimitCheck
                    then Inr (s, [Send ws (Error_msg (js ''RATE_LIMIT_EXCEEDED'')
                                             (js ''Too many photo uploads. Please wait.'')
                                             (retryAfter rateLimitCheck))])
                    else photo_added_commit s message sessionId ulid now)))"

definition handleDanmaku ::
  "platform \<Rightarrow> EventRoom \<Rightarrow> jsstring \<Rightarrow> jsstring \<Rightarrow> WebSocket \<Rightarrow> jsstring \<Rightarrow> int
     \<Rightarrow> EventRoom \<times> effect list" where
  "handleDanmaku pf s content sessionId ws ulid now =
     (let validation = validateDanmakuContent pf content
      in if \<not> valid validation
         then (s, [Send ws (Error_msg (js ''INVALID_DANMAKU'')
                              (join (js '', '') (errors validation)) None)])
         else
           (let filterResult = filterProfanity pf content
            in if \<not> clean filterResult
               then (s, [Send ws (Error_msg (js ''PROFANITY_DETECTED'')
                                    (js ''Message contains inappropriate content'') None)])
               else
                 (case map_of (rateLimitState s) sessionId of
                    None \<Rightarrow> (s, broadcast s (Danmaku_msg ulid content sessionId now))
                  | Some state \<Rightarrow>
                      (let rateLimitCheck =
                             checkRateLimit state KDanmaku DEFAULT_RATE_LIMIT_CONFIG now
                       in if \<not> allowed rateLimitCheck
                          then (s, [Send ws (Error_msg (js ''RATE_LIMIT_EXCEEDED'')
                                               (js ''Please wait before sending another message'')
                                               (retryAfter rateLimitCheck))])
                          else
                            (let s1 = s\<lparr>rateLimitState :=
                                          map_set sessionId
                                            (recordAction state KDanmaku DEFAULT_RATE_LIMIT_CONFIG now)
                                            (rateLimitState s)\<rparr>
                             in (s1, broadcast s1 (Danmaku_msg ulid content sessionId now)))))))"

definition handleWebSocketMessage ::
  "platform \<Rightarrow> EventRoom \<Rightarrow> ClientMessage \<Rightarrow> jsstring \<Rightarrow> WebSocket \<Rightarrow> jsstring \<Rightarrow> int
     \<Rightarrow> js_error + (EventRoom \<times> effect list)" where
  "handleWebSocketMessage pf s message sessionId ws ulid now =
     (let inactive = Inr (s, [Send ws (Error_msg (js ''EVENT_INACTIVE'')
                                         (js ''Event is not active'') None)]);
          expired = Inr (s\<lparr>readyState := (readyState s)(ws := CLOSING)\<rparr>,
                         [Send ws (Error_msg (js ''SESSION_EXPIRED'')
                                     (js ''Session expired, please reconnect'') None),
                          Close ws 4000 (js ''Session expired'')])
      in case event s of
           None \<Rightarrow> inactive
         | Some e \<Rightarrow>
             if status e \<noteq> Active then inactive
             else
               (case map_of (wsToSessionId s) ws of
                  None \<Rightarrow> expired
                | Some actualSessionId \<Rightarrow>
                    if actualSessionId = [] \<or> \<not> map_has actualSessionId (sessionMetadata s)
                    then expired
                    else
                      (case message of
                         Ping \<Rightarrow> Inr (s, [Send ws Pong])
                       | Photo_added m \<Rightarrow> handlePhotoAdded s m sessionId ws ulid now
                       | Danmaku content \<Rightarrow>
                           Inr (handleDanmaku pf s content sessionId ws ulid now)
                       | Join sid r \<Rightarrow>
                           Inr (s, [Send ws (Error_msg (js ''UNKNOWN_MESSAGE_TYPE'')
                                               (js ''Unknown message type'') None)])
                       | Other_type \<Rightarrow>
                           Inr (s, [Send ws (Error_msg (js ''UNKNOWN_MESSAGE_TYPE'')
                                               (js ''Unknown message type'') None)]))))"

text \<open>
  The join branches of the message listener that \<open>handleWebSocketUpgrade\<close> installs on
  \<open>server\<close>. \<open>folderName\<close> is the outcome of the folder name lookup. Without a resident
  event \<open>this.event!.id\<close> throws after the registry has been rewritten; the listener's
  \<open>catch\<close> answers with \<open>INVALID_MESSAGE\<close>.
\<close>

definition join_session ::
  "EventRoom \<Rightarrow> jsstring \<Rightarrow> WebSocket \<Rightarrow> jsstring \<Rightarrow> Role \<Rightarrow> jsstring option \<Rightarrow> int
     \<Rightarrow> EventRoom \<times> effect list" where
  "join_session s tempId server sessionId r folderName now =
     (let s1 = s\<lparr>sessions := map_set sessionId server (map_delete tempId (sessions s)),
                  wsToSessionId := map_set server sessionId (wsToSessionId s)\<rparr>
      in case event s1 of
           None \<Rightarrow> (s1, [Send server invalid_message])
         | Some e \<Rightarrow>
             (let s2 = s1\<lparr>sessionMetadata :=
                           map_set sessionId
                             \<lparr>ps_id = sessionId, ps_activityId = e_id e, joinedAt = now,
                              role = r, isActive = True\<rparr>
                             (sessionMetadata s1),
                         rateLimitState :=
                           map_set sessionId createRateLimitState (rateLimitState s1)\<rparr>;
                  e1 = e\<lparr>participantCount := length (sessionMetadata s2)\<rparr>;
                  e2 = (case folderName of
                          None \<Rightarrow> e1
                        | Some n \<Rightarrow> if n \<noteq> [] \<and> Some n \<noteq> e_title e1
                                    then e1\<lparr>e_title := Some n\<rparr> else e1);
                  s3 = s2\<lparr>event := Some e2\<rparr>
              in (s3, [Send server (Joined (e_id e2) (photos s3) now (e_title e2))])))"

text \<open>
  \<open>msgSessionId\<close> is the \<open>sessionId\<close> property of a message that is not of type
  \<open>join\<close>, when it has one.
\<close>

definition onMessage ::
  "platform \<Rightarrow> EventRoom \<Rightarrow> jsstring \<Rightarrow> WebSocket \<Rightarrow> ClientMessage \<Rightarrow> jsstring option
     \<Rightarrow> jsstring option \<Rightarrow> jsstring \<Rightarrow> int \<Rightarrow> EventRoom \<times> effect list" where
  "onMessage pf s tempId server message msgSessionId folderName ulid now =
     (let dispatch =
            (case handleWebSocketMessage pf s message tempId server ulid now of
               Inl e \<Rightarrow> (s, [Send server invalid_message])
             | Inr r \<Rightarrow> r)
      in case message of
           Join sessionId r \<Rightarrow>
             if sessionId \<noteq> [] \<and> map_has tempId (sessions s)
             then join_session s tempId server sessionId
                    (case r of None \<Rightarrow> Participant | Some x \<Rightarrow> x) folderName now
             else dispatch
         | _ \<Rightarrow>
             (case msgSessionId of
                None \<Rightarrow> dispatch
              | Some sessionId \<Rightarrow>
                  if sessionId \<noteq> [] \<and> map_has tempId (sessions s)
                  then join_session s tempId server sessionId Participant folderName now
                  else dispatch))"

definition onClose :: "EventRoom \<Rightarrow> WebSocket \<Rightarrow> EventRoom" where
  "onClose s server =
     (case map_of (wsToSessionId s) server of
        None \<Rightarrow> s
      | Some actualSessionId \<Rightarrow>
          if actualSessionId = [] then s
          else
            (let s1 = s\<lparr>sessions := map_delete actualSessionId (sessions s),
                        sessionMetadata := map_delete actualSessionId (sessionMetadata s),
                        rateLimitState := map_delete actualSessionId (rateLimitState s),
                        wsToSessionId := map_delete server (wsToSessionId s)\<rparr>
             in case event s1 of
                  None \<Rightarrow> s1
                | Some e \<Rightarrow>
                    s1\<lparr>event := Some (e\<lparr>participantCount := length (sessionMetadata s1)\<rparr>)\<rparr>))"

subsection \<open>Reconciliation: merging a fetched listing into the ledger\<close>

record DriveFile =
  f_id :: jsstring
  thumbnailLink :: "jsstring option"
  f_width :: "int option"
  f_height :: "int option"

definition is_digit :: "16 word \<Rightarrow> bool" where
  "is_digit c = (0x30 \<le> c \<and> c \<le> 0x39)"

text \<open>\<open>link.replace(/=s\d+$/, '=s0')\<close>.\<close>

definition replace_size_suffix :: "jsstring \<Rightarrow> jsstring" where
  "replace_size_suffix link =
     (let r = rev link; ds = takeWhile is_digit r; rest = dropWhile is_digit r
      in if ds \<noteq> [] \<and> starts_with rest (rev (js ''=s''))
         then rev (drop 2 rest) @ js ''=s0''
         else link)"

text \<open>
  One round of the loop over the fetched files; each file comes with the values that
  \<open>generateULID()\<close> and \<open>Date.now()\<close> would yield for it. The accumulator carries the
  room and \<open>newPhotos\<close>.
\<close>

definition sync_file ::
  "jsstring \<Rightarrow> EventRoom \<times> Photo list \<Rightarrow> DriveFile \<times> jsstring \<times> int \<Rightarrow> EventRoom \<times> Photo list" where
  "sync_file activityId acc entry =
     (case (acc, entry) of
        ((s, newPhotos), (file, ulid, now)) \<Rightarrow>
          if f_id file \<in> driveFileIdSet s then (s, newPhotos)
          else
            (let link = (case thumbnailLink file of
                           None \<Rightarrow> None
                         | Some l \<Rightarrow> if l = [] then None else Some l);
                 full = (case link of
                           Some l \<Rightarrow> replace_size_suffix l
                         | None \<Rightarrow> js ''https://drive.google.com/thumbnail?id='' @ f_id file
                                     @ js ''&sz=s0'');
                 thumb = (case link of
                            Some l \<Rightarrow> l
                          | None \<Rightarrow> js ''https://drive.google.com/thumbnail?id='' @ f_id file
                                      @ js ''&sz=w400'');
                 photo = \<lparr>p_id = ulid, p_activityId = activityId, p_sessionId = js ''system'',
                           driveFileId = f_id file, thumbnailUrl = thumb, fullUrl = full,
                           uploadedAt = now, width = f_width file, height = f_height file\<rparr>
             in (s\<lparr>photos := photos s @ [photo],
                   driveFileIdSet := insert (f_id file) (driveFileIdSet s)\<rparr>,
                 newPhotos @ [photo])))"

definition sync_merge ::
  "EventRoom \<Rightarrow> (DriveFile \<times> jsstring \<times> int) list \<Rightarrow> EventRoom \<times> effect list" where
  "sync_merge s allFiles =
     (case event s of
        None \<Rightarrow> (s, [])
      | Some e \<Rightarrow>
          if driveFolderId e = [] then (s, [])
          else
            (case foldl (sync_file (e_id e)) (s, []) allFiles of
               (s1, newPhotos) \<Rightarrow>
                 (let s2 = s1\<lparr>event := Some (e\<lparr>photoCount := length (photos s1)\<rparr>)\<rparr>
                  in (s2, concat (map (\<lambda>photo. broadcastToDisplays s2 (Photo_added_msg photo))
                                   newPhotos)))))"

subsection \<open>The ledger invariant\<close>

text \<open>
  The dedup index holds exactly the file references of the ledger, and no two photos of
  the ledger share one.
\<close>

definition ledger_ok :: "EventRoom \<Rightarrow> bool" where
  "ledger_ok s =
     (driveFileIdSet s = set (map driveFileId (photos s)) \<and> distinct (map driveFileId (photos s)))"

text \<open>
  The states the room can be in: a fresh instance, and what each request, socket event,
  reconciliation pass or change of a socket's \<open>readyState\<close> makes of a state.
\<close>

inductive reachable :: "platform \<Rightarrow> EventRoom \<Rightarrow> bool" for pf :: platform where
  fresh: "reachable pf (new_room rs)"
| init: "reachable pf s \<Longrightarrow> reachable pf (snd (handleInitEvent s b_id b_title b_folder now))"
| get: "reachable pf s \<Longrightarrow> reachable pf (snd (handleGetEvent s doName folderName now))"
| finish: "reachable pf s \<Longrightarrow> reachable pf (fst (snd (handleEndEvent s now)))"
| notify: "reachable pf s \<Longrightarrow> reachable pf (fst (snd (handleNotifyPhoto s b ulid now)))"
| upgrade:
    "reachable pf s \<Longrightarrow>
     reachable pf (snd (handleWebSocketUpgrade s doName folderName server tempId now))"
| message:
    "reachable pf s \<Longrightarrow>
     reachable pf (fst (onMessage pf s tempId server msg msgSessionId folderName ulid now))"
| close: "reachable pf s \<Longrightarrow> reachable pf (onClose s server)"
| sync: "reachable pf s \<Longrightarrow> reachable pf (fst (sync_merge s allFiles))"
| socket: "reachable pf s \<Longrightarrow> reachable pf (s\<lparr>readyState := rs\<rparr>)"

subsection \<open>A concrete run\<close>

text \<open>
  A room initialised for a folder, then joined by a participant on socket 1 and by a
  display on socket 2; and the same room after the upload path has announced one file.
\<close>

definition example_room0 :: EventRoom where
  "example_room0 =
     snd (handleInitEvent (new_room (\<lambda>ws. 0)) (js ''pub'') (Some (js ''Party''))
            (Some (js ''folder'')) 1000)"

definition example_room1 :: EventRoom where
  "example_room1 =
     fst (onMessage ascii_platform
            (snd (handleWebSocketUpgrade example_room0 None None (WebSocket 1) (js ''t1'') 2000))
            (js ''t1'') (WebSocket 1) (Join (js ''alice'') (Some Participant)) None None
            (js ''u1'') 2100)"

definition example_room2 :: EventRoom where
  "example_room2 =
     fst (onMessage ascii_platform
            (snd (handleWebSocketUpgrade example_room1 None None (WebSocket 2) (js ''t2'') 3000))
            (js ''t2'') (WebSocket 2) (Join (js ''screen'') (Some Display)) None None
            (js ''u2'') 3100)"

definition example_notify :: NotifyBody where
  "example_notify =
     \<lparr>n_driveFileId = js ''1AbCdEfGhIjKlMnOpQrStUv'', n_thumbnailUrl = js ''https://t/1'',
      n_fullUrl = js ''https://f/1'', n_width = Some 800, n_height = Some 600\<rparr>"

definition example_room3 :: EventRoom where
  "example_room3 = fst (snd (handleNotifyPhoto example_room2 example_notify (js ''u3'') 4000))"

definition example_message :: "string \<Rightarrow> string \<Rightarrow> PhotoAddedMessage" where
  "example_message f t =
     \<lparr>m_driveFileId = js f, m_thumbnailUrl = js t, m_fullUrl = js ''https://f/2'',
      m_width = None, m_height = None\<rparr>"

subsection \<open>Vocabulary of the broadcast claims\<close>






section \<open>Properties of the rate limiter\<close>

lemma Math_min_Min: "xs \<noteq> [] \<Longrightarrow> Math_min xs = Num (Min (set xs))"
proof (cases xs)
  case (Cons y ys)
  then show ?thesis
    using Min.set_eq_fold [of y ys] by (simp add: Math_min_def)
qed simp

lemma Math_max_Max: "xs \<noteq> [] \<Longrightarrow> Math_max xs = Num (Max (set xs))"
proof (cases xs)
  case (Cons y ys)
  then show ?thesis
    using Max.set_eq_fold [of y ys] by (simp add: Math_max_def)
qed simp

lemma check_photo_default:
  "checkRateLimit s KPhoto DEFAULT_RATE_LIMIT_CONFIG now =
     (if 20 \<le> length (in_window 60000 now (photoUploads s))
      then \<lparr>allowed = False,
            retryAfter = Some (Num (60000 - (now - Min (set (in_window 60000 now (photoUploads s))))))\<rparr>
      else \<lparr>allowed = True, retryAfter = None\<rparr>)"
proof (cases "20 \<le> length (in_window 60000 now (photoUploads s))")
  case True
  then have ne: "in_window 60000 now (photoUploads s) \<noteq> []" by auto
  from True show ?thesis
    using Math_min_Min [OF ne]
    by (simp add: checkRateLimit_def DEFAULT_RATE_LIMIT_CONFIG_def in_window_def retry_of_def)
next
  case False
  then show ?thesis
    by (simp add: checkRateLimit_def DEFAULT_RATE_LIMIT_CONFIG_def in_window_def)
qed

lemma check_danmaku_default:
  "checkRateLimit s KDanmaku DEFAULT_RATE_LIMIT_CONFIG now =
     (if 1 \<le> length (in_window 2000 now (danmakuSends s))
      then \<lparr>allowed = False,
            retryAfter = Some (Num (2000 - (now - Max (set (in_window 2000 now (danmakuSends s))))))\<rparr>
      else \<lparr>allowed = True, retryAfter = None\<rparr>)"
proof (cases "1 \<le> length (in_window 2000 now (danmakuSends s))")
  case True
  then have ne: "in_window 2000 now (danmakuSends s) \<noteq> []" by auto
  from True show ?thesis
    using Math_max_Max [OF ne]
    by (simp add: checkRateLimit_def DEFAULT_RATE_LIMIT_CONFIG_def in_window_def retry_of_def)
next
  case False
  then show ?thesis
    by (simp add: checkRateLimit_def DEFAULT_RATE_LIMIT_CONFIG_def in_window_def)
qed

lemma single_danmaku_1500:
  "checkRateLimit (recordAction createRateLimitState KDanmaku DEFAULT_RATE_LIMIT_CONFIG t)
      KDanmaku DEFAULT_RATE_LIMIT_CONFIG (t + 1500)
   = \<lparr>allowed = False, retryAfter = Some (Num 500)\<rparr>"
  by (simp add: checkRateLimit_def recordAction_def createRateLimitState_def
      DEFAULT_RATE_LIMIT_CONFIG_def retry_of_def Math_max_def)

lemma single_danmaku_2100:
  "checkRateLimit (recordAction createRateLimitState KDanmaku DEFAULT_RATE_LIMIT_CONFIG t)
      KDanmaku DEFAULT_RATE_LIMIT_CONFIG (t + 2100)
   = \<lparr>allowed = True, retryAfter = None\<rparr>"
  by (simp add: checkRateLimit_def recordAction_def createRateLimitState_def
      DEFAULT_RATE_LIMIT_CONFIG_def)

text \<open>
  C2. With the default configuration, \<open>checkRateLimit\<close> keeps the entries \<open>t\<close> of the
  kind's log with \<open>now - t\<close> below the kind's window (photo 60000 ms, danmaku 2000 ms) and
  denies exactly when their number has reached the kind's limit (photo 20, danmaku 1).
  A denial carries \<open>window - (now - oldest kept entry)\<close> for photo and
  \<open>window - (now - most recent kept entry)\<close> for danmaku; an admission carries no retry
  value. With one danmaku recorded at \<open>t\<close>, the check at \<open>t + 1500\<close> denies with a retry
  value of 500, which lies in (0, 500], and the check at \<open>t + 2100\<close> allows.
\<close>

theorem C2_check_rule:
  "checkRateLimit s KPhoto DEFAULT_RATE_LIMIT_CONFIG now =
     (if 20 \<le> length (in_window 60000 now (photoUploads s))
      then \<lparr>allowed = False,
            retryAfter = Some (Num (60000 - (now - Min (set (in_window 60000 now (photoUploads s))))))\<rparr>
      else \<lparr>allowed = True, retryAfter = None\<rparr>)
   \<and> checkRateLimit s KDanmaku DEFAULT_RATE_LIMIT_CONFIG now =
     (if 1 \<le> length (in_window 2000 now (danmakuSends s))
      then \<lparr>allowed = False,
            retryAfter = Some (Num (2000 - (now - Max (set (in_window 2000 now (danmakuSends s))))))\<rparr>
      else \<lparr>allowed = True, retryAfter = None\<rparr>)
   \<and> checkRateLimit (recordAction createRateLimitState KDanmaku DEFAULT_RATE_LIMIT_CONFIG t)
        KDanmaku DEFAULT_RATE_LIMIT_CONFIG (t + 1500)
      = \<lparr>allowed = False, retryAfter = Some (Num 500)\<rparr>
   \<and> (0::int) < 500 \<and> (500::int) \<le> 500
   \<and> checkRateLimit (recordAction createRateLimitState KDanmaku DEFAULT_RATE_LIMIT_CONFIG t)
        KDanmaku DEFAULT_RATE_LIMIT_CONFIG (t + 2100)
      = \<lparr>allowed = True, retryAfter = None\<rparr>"
  using check_photo_default [of s now] check_danmaku_default [of s now]
    single_danmaku_1500 [of t] single_danmaku_2100 [of t]
  by simp


lemma in_window_record_photo:
  "in_window 60000 now (photoUploads (recordAction s KPhoto DEFAULT_RATE_LIMIT_CONFIG now))
   = in_window 60000 now (photoUploads s) @ [now]"
  by (simp add: recordAction_def in_window_def DEFAULT_RATE_LIMIT_CONFIG_def)

lemma in_window_record_danmaku:
  "in_window 2000 now (danmakuSends (recordAction s KDanmaku DEFAULT_RATE_LIMIT_CONFIG now))
   = in_window 2000 now (danmakuSends s) @ [now]"
  by (simp add: recordAction_def in_window_def DEFAULT_RATE_LIMIT_CONFIG_def)

text \<open>
  C3, as stated, fails for the danmaku kind: its limit is 1, so the action just recorded
  fills the window by itself. Recording a danmaku at time 0 on the empty log and checking
  at time 0 denies, with the whole window as retry value.
\<close>

theorem C3_danmaku_counterexample:
  "in_window 2000 0
      (danmakuSends (recordAction createRateLimitState KDanmaku DEFAULT_RATE_LIMIT_CONFIG 0)) = [0]
   \<and> checkRateLimit (recordAction createRateLimitState KDanmaku DEFAULT_RATE_LIMIT_CONFIG 0)
        KDanmaku DEFAULT_RATE_LIMIT_CONFIG 0
      = \<lparr>allowed = False, retryAfter = Some (Num 2000)\<rparr>"
  by (simp add: checkRateLimit_def recordAction_def createRateLimitState_def in_window_def
      DEFAULT_RATE_LIMIT_CONFIG_def retry_of_def Math_max_def)

text \<open>
  C3, amended. For the photo kind, \<open>recordAction\<close> followed by \<open>checkRateLimit\<close> with
  the same \<open>now\<close> allows whenever the action just recorded is the sole entry in the
  window (more generally, it allows exactly when fewer than 19 earlier entries are in the
  window). For the danmaku kind the same sequence always denies, and when the action just
  recorded is the sole entry in the window the retry value is the whole window, 2000.
\<close>

theorem C3_record_then_check:
  "(in_window 60000 now (photoUploads (recordAction s KPhoto DEFAULT_RATE_LIMIT_CONFIG now)) = [now]
      \<longrightarrow> checkRateLimit (recordAction s KPhoto DEFAULT_RATE_LIMIT_CONFIG now)
            KPhoto DEFAULT_RATE_LIMIT_CONFIG now = \<lparr>allowed = True, retryAfter = None\<rparr>)
   \<and> allowed (checkRateLimit (recordAction s KPhoto DEFAULT_RATE_LIMIT_CONFIG now)
         KPhoto DEFAULT_RATE_LIMIT_CONFIG now)
      = (length (in_window 60000 now (photoUploads s)) < 19)
   \<and> allowed (checkRateLimit (recordAction s KDanmaku DEFAULT_RATE_LIMIT_CONFIG now)
         KDanmaku DEFAULT_RATE_LIMIT_CONFIG now) = False
   \<and> (in_window 2000 now (danmakuSends (recordAction s KDanmaku DEFAULT_RATE_LIMIT_CONFIG now)) = [now]
      \<longrightarrow> checkRateLimit (recordAction s KDanmaku DEFAULT_RATE_LIMIT_CONFIG now)
            KDanmaku DEFAULT_RATE_LIMIT_CONFIG now
          = \<lparr>allowed = False, retryAfter = Some (Num 2000)\<rparr>)"
proof -
  let ?P = "recordAction s KPhoto DEFAULT_RATE_LIMIT_CONFIG now"
  let ?D = "recordAction s KDanmaku DEFAULT_RATE_LIMIT_CONFIG now"
  have photo_eq:
    "allowed (checkRateLimit ?P KPhoto DEFAULT_RATE_LIMIT_CONFIG now)
       = (length (in_window 60000 now (photoUploads s)) < 19)"
    by (auto simp add: check_photo_default in_window_record_photo)
  have photo_sole:
    "in_window 60000 now (photoUploads ?P) = [now]
       \<longrightarrow> checkRateLimit ?P KPhoto DEFAULT_RATE_LIMIT_CONFIG now = \<lparr>allowed = True, retryAfter = None\<rparr>"
    by (simp add: check_photo_default)
  have danmaku_deny:
    "allowed (checkRateLimit ?D KDanmaku DEFAULT_RATE_LIMIT_CONFIG now) = False"
    by (simp add: check_danmaku_default in_window_record_danmaku)
  have danmaku_sole:
    "in_window 2000 now (danmakuSends ?D) = [now]
       \<longrightarrow> checkRateLimit ?D KDanmaku DEFAULT_RATE_LIMIT_CONFIG now
           = \<lparr>allowed = False, retryAfter = Some (Num 2000)\<rparr>"
    by (simp add: check_danmaku_default)
  from photo_sole photo_eq danmaku_deny danmaku_sole show ?thesis by blast
qed

theorem C3_record_then_check_witness:
  "in_window 60000 5 (photoUploads (recordAction createRateLimitState KPhoto DEFAULT_RATE_LIMIT_CONFIG 5)) = [5]
   \<and> checkRateLimit (recordAction createRateLimitState KPhoto DEFAULT_RATE_LIMIT_CONFIG 5)
        KPhoto DEFAULT_RATE_LIMIT_CONFIG 5 = \<lparr>allowed = True, retryAfter = None\<rparr>
   \<and> in_window 2000 5 (danmakuSends (recordAction createRateLimitState KDanmaku DEFAULT_RATE_LIMIT_CONFIG 5)) = [5]
   \<and> checkRateLimit (recordAction createRateLimitState KDanmaku DEFAULT_RATE_LIMIT_CONFIG 5)
        KDanmaku DEFAULT_RATE_LIMIT_CONFIG 5 = \<lparr>allowed = False, retryAfter = Some (Num 2000)\<rparr>"
proof -
  have p: "in_window 60000 5 (photoUploads (recordAction createRateLimitState KPhoto DEFAULT_RATE_LIMIT_CONFIG 5)) = [5]"
    by (simp add: in_window_record_photo) (simp add: in_window_def createRateLimitState_def)
  have d: "in_window 2000 5 (danmakuSends (recordAction createRateLimitState KDanmaku DEFAULT_RATE_LIMIT_CONFIG 5)) = [5]"
    by (simp add: in_window_record_danmaku) (simp add: in_window_def createRateLimitState_def)
  from p d C3_record_then_check [of 5 createRateLimitState] show ?thesis by blast
qed
section \<open>Properties of the playlist scheduler\<close>


lemma length_swap_at [simp]: "length (swap_at i j xs) = length xs"
  by (simp add: swap_at_def)

lemma mset_swap_at: "i < length xs \<Longrightarrow> j < length xs \<Longrightarrow> mset (swap_at i j xs) = mset xs"
  unfolding swap_at_def by (rule mset_swap)

lemma shuffle_loop_length [simp]: "length (shuffle_loop random k i xs) = length xs"
  by (induction i arbitrary: k xs) (simp_all add: Let_def)

lemma shuffle_loop_mset: "i < length xs \<Longrightarrow> mset (shuffle_loop random k i xs) = mset xs"
proof (induction i arbitrary: k xs)
  case 0
  then show ?case by simp
next
  case (Suc i)
  let ?j = "random k mod (Suc i + 1)"
  have "?j < Suc i + 1" by (rule mod_less_divisor) simp
  with Suc.prems have j: "?j < length xs" by linarith
  have sw: "mset (swap_at (Suc i) ?j xs) = mset xs"
    using Suc.prems j by (rule mset_swap_at)
  have "i < length (swap_at (Suc i) ?j xs)" using Suc.prems by simp
  then have "mset (shuffle_loop random (Suc k) i (swap_at (Suc i) ?j xs)) = mset (swap_at (Suc i) ?j xs)"
    by (rule Suc.IH)
  with sw show ?case by (simp add: Let_def)
qed

lemma shuffleArray_mset: "mset (shuffleArray random k xs) = mset xs"
proof (cases xs)
  case Nil
  then show ?thesis by (simp add: shuffleArray_def)
next
  case (Cons y ys)
  then have "length xs - 1 < length xs" by simp
  then show ?thesis unfolding shuffleArray_def by (rule shuffle_loop_mset)
qed

lemma shuffleArray_length [simp]: "length (shuffleArray random k xs) = length xs"
  by (simp add: shuffleArray_def)

lemma add_cursor [simp]: "currentPlaylistIndex (addToPlaylist p s) = currentPlaylistIndex s"
  by (simp add: addToPlaylist_def Let_def)

lemma add_draws [simp]: "draws (addToPlaylist p s) = draws s"
  by (simp add: addToPlaylist_def Let_def)

lemma add_reshuffles [simp]: "reshuffles (addToPlaylist p s) = reshuffles s"
  by (simp add: addToPlaylist_def Let_def reshuffles_def)

lemma add_mset:
  "p_id p \<notin> p_id ` set (playlistQueue s) \<Longrightarrow>
   mset (playlistQueue (addToPlaylist p s)) = add_mset p (mset (playlistQueue s))"
proof -
  assume fresh: "p_id p \<notin> p_id ` set (playlistQueue s)"
  have no: "\<not> list_ex (\<lambda>q. p_id q = p_id p) (playlistQueue s)"
  proof
    assume "list_ex (\<lambda>q. p_id q = p_id p) (playlistQueue s)"
    then obtain q where "q \<in> set (playlistQueue s)" "p_id q = p_id p"
      by (auto simp add: list_ex_iff)
    then have "p_id p \<in> p_id ` set (playlistQueue s)" by (metis imageI)
    with fresh show False by simp
  qed
  let ?i = "currentPlaylistIndex s + 1"
  let ?Q = "playlistQueue s"
  have q: "playlistQueue (addToPlaylist p s) = take ?i ?Q @ [p] @ drop ?i ?Q"
    using no by (simp add: addToPlaylist_def Let_def)
  have "mset (take ?i ?Q @ [p] @ drop ?i ?Q) = add_mset p (mset (take ?i ?Q) + mset (drop ?i ?Q))"
    by simp
  also have "mset (take ?i ?Q) + mset (drop ?i ?Q) = mset (take ?i ?Q @ drop ?i ?Q)"
    by (simp only: mset_append)
  also have "take ?i ?Q @ drop ?i ?Q = ?Q"
    by (rule append_take_drop_id)
  finally show ?thesis by (simp only: q)
qed

lemma insert_all_props:
  "distinct (map p_id ps) \<Longrightarrow> p_id ` set ps \<inter> p_id ` set (playlistQueue s) = {} \<Longrightarrow>
   mset (playlistQueue (insert_all ps s)) = mset ps + mset (playlistQueue s)
   \<and> currentPlaylistIndex (insert_all ps s) = currentPlaylistIndex s
   \<and> reshuffles (insert_all ps s) = reshuffles s
   \<and> draws (insert_all ps s) = draws s"
proof (induction ps arbitrary: s)
  case Nil
  then show ?case by (simp add: insert_all_def)
next
  case (Cons p ps)
  have fresh: "p_id p \<notin> p_id ` set (playlistQueue s)" using Cons.prems(2) by auto
  have m: "mset (playlistQueue (addToPlaylist p s)) = add_mset p (mset (playlistQueue s))"
    using fresh by (rule add_mset)
  then have st: "set (playlistQueue (addToPlaylist p s)) = insert p (set (playlistQueue s))"
    by (metis set_mset_add_mset_insert set_mset_mset)
  have d: "distinct (map p_id ps)" using Cons.prems(1) by simp
  have dj: "p_id ` set ps \<inter> p_id ` set (playlistQueue (addToPlaylist p s)) = {}"
    using Cons.prems st by auto
  have unf: "insert_all (p # ps) s = insert_all ps (addToPlaylist p s)"
    by (simp add: insert_all_def)
  from Cons.IH [OF d dj] m show ?case by (simp add: unf)
qed


lemma advance_step:
  assumes "currentPlaylistIndex s + 1 < length (playlistQueue s)"
  shows "playlistQueue (advancePlayback random now s) = playlistQueue s
       \<and> currentPlaylistIndex (advancePlayback random now s) = currentPlaylistIndex s + 1
       \<and> reshuffles (advancePlayback random now s) = reshuffles s"
  using assms by (auto simp add: advancePlayback_def Let_def reshuffles_def)

lemma advance_wrap:
  assumes "playlistQueue s \<noteq> []" "currentPlaylistIndex s + 1 \<ge> length (playlistQueue s)"
  shows "mset (playlistQueue (advancePlayback random now s)) = mset (playlistQueue s)
       \<and> currentPlaylistIndex (advancePlayback random now s) = 0
       \<and> reshuffles (advancePlayback random now s) = reshuffles s + 1"
  using assms
  by (simp add: advancePlayback_def Let_def reshuffles_def reshufflePlaylist_def shuffleArray_mset)

lemma advance_all_steps:
  "currentPlaylistIndex s + length ticks < length (playlistQueue s) \<Longrightarrow>
   playlistQueue (advance_all random ticks s) = playlistQueue s
   \<and> currentPlaylistIndex (advance_all random ticks s) = currentPlaylistIndex s + length ticks
   \<and> reshuffles (advance_all random ticks s) = reshuffles s"
proof (induction ticks arbitrary: s)
  case Nil
  then show ?case by (simp add: advance_all_def)
next
  case (Cons t ticks)
  have lt: "currentPlaylistIndex s + 1 < length (playlistQueue s)" using Cons.prems by simp
  note st = advance_step [OF lt, of random t]
  have pre: "currentPlaylistIndex (advancePlayback random t s) + length ticks
             < length (playlistQueue (advancePlayback random t s))"
    using Cons.prems st by simp
  have unf: "advance_all random (t # ticks) s = advance_all random ticks (advancePlayback random t s)"
    by (simp add: advance_all_def)
  from Cons.IH [OF pre] st show ?case by (simp add: unf)
qed

lemma advance_all_snoc:
  "advance_all random (ticks @ [t]) s = advancePlayback random t (advance_all random ticks s)"
  by (simp add: advance_all_def)


text \<open>
  C4, as stated, fails for \<open>N = 0\<close>: with no photo inserted and no tick,
  \<open>advancePlayback\<close> never runs, and a tick on the empty queue returns at once; no
  reshuffle happens, where the claim says exactly one.
\<close>

theorem C4_empty_counterexample:
  "reshuffles (advance_all (\<lambda>k. 0) [] (insert_all [] empty_playlist)) = 0"
  by (simp add: advance_all_def insert_all_def empty_playlist_def reshuffles_def)

text \<open>
  C4, amended. Starting from the empty playlist with cursor 0, inserting \<open>N \<ge> 1\<close>
  photos with pairwise distinct ids and then calling \<open>advancePlayback\<close> \<open>N\<close> times
  reshuffles exactly once, on the last of the \<open>N\<close> calls (none happened before it);
  afterwards the queue is a permutation of the inserted photos, hence of their ids, and
  the cursor is 0. This holds for every random source and every sequence of clock values.
\<close>

theorem C4_playlist_exhaustion:
  assumes d: "distinct (map p_id inserted)"
    and ne: "inserted \<noteq> []"
    and len: "length ticks = length inserted"
  shows "reshuffles (advance_all random ticks (insert_all inserted empty_playlist)) = 1
       \<and> reshuffles (advance_all random (butlast ticks) (insert_all inserted empty_playlist)) = 0
       \<and> mset (playlistQueue (advance_all random ticks (insert_all inserted empty_playlist))) = mset inserted
       \<and> mset (map p_id (playlistQueue (advance_all random ticks (insert_all inserted empty_playlist))))
           = mset (map p_id inserted)
       \<and> currentPlaylistIndex (advance_all random ticks (insert_all inserted empty_playlist)) = 0"
proof -
  let ?s1 = "insert_all inserted empty_playlist"
  have "p_id ` set inserted \<inter> p_id ` set (playlistQueue empty_playlist) = {}"
    by (simp add: empty_playlist_def)
  from insert_all_props [OF d this]
  have q1: "mset (playlistQueue ?s1) = mset inserted"
    and c1: "currentPlaylistIndex ?s1 = 0"
    and r1: "reshuffles ?s1 = 0"
    by (simp_all add: empty_playlist_def reshuffles_def)
  from q1 have l1: "length (playlistQueue ?s1) = length inserted"
    by (rule mset_eq_length)
  from ne len have tne: "ticks \<noteq> []" by auto
  then have split: "ticks = butlast ticks @ [last ticks]" by simp
  let ?s2 = "advance_all random (butlast ticks) ?s1"
  have "currentPlaylistIndex ?s1 + length (butlast ticks) < length (playlistQueue ?s1)"
    using c1 l1 len ne by simp
  from advance_all_steps [OF this, of random]
  have q2: "playlistQueue ?s2 = playlistQueue ?s1"
    and c2: "currentPlaylistIndex ?s2 = length ticks - 1"
    and r2: "reshuffles ?s2 = 0"
    using c1 r1 by simp_all
  have ne2: "playlistQueue ?s2 \<noteq> []" using q2 l1 ne by auto
  have full: "currentPlaylistIndex ?s2 + 1 \<ge> length (playlistQueue ?s2)"
    using q2 c2 l1 len by simp
  let ?s3 = "advancePlayback random (last ticks) ?s2"
  from advance_wrap [OF ne2 full, of random "last ticks"]
  have q3: "mset (playlistQueue ?s3) = mset inserted"
    and c3: "currentPlaylistIndex ?s3 = 0"
    and r3: "reshuffles ?s3 = 1"
    using q1 q2 r2 by simp_all
  have s3: "advance_all random ticks ?s1 = ?s3"
    using advance_all_snoc [of random "butlast ticks" "last ticks" ?s1] split by simp
  from q3 have "mset (map p_id (playlistQueue ?s3)) = mset (map p_id inserted)"
    by (metis mset_map)
  with q3 c3 r3 r2 show ?thesis by (simp only: s3)
qed

theorem C4_playlist_exhaustion_witness:
  "distinct (map p_id [example_photo ''a'' ''f1'', example_photo ''b'' ''f2''])
   \<and> [example_photo ''a'' ''f1'', example_photo ''b'' ''f2''] \<noteq> []
   \<and> length [0, 5000 :: int] = length [example_photo ''a'' ''f1'', example_photo ''b'' ''f2'']
   \<and> reshuffles (advance_all (\<lambda>k. 0) [0, 5000]
          (insert_all [example_photo ''a'' ''f1'', example_photo ''b'' ''f2''] empty_playlist)) = 1
   \<and> currentPlaylistIndex (advance_all (\<lambda>k. 0) [0, 5000]
          (insert_all [example_photo ''a'' ''f1'', example_photo ''b'' ''f2''] empty_playlist)) = 0"
proof -
  have d: "distinct (map p_id [example_photo ''a'' ''f1'', example_photo ''b'' ''f2''])"
    by (simp add: example_photo_def js_def)
  have ne: "[example_photo ''a'' ''f1'', example_photo ''b'' ''f2''] \<noteq> []" by simp
  have len: "length [0, 5000 :: int] = length [example_photo ''a'' ''f1'', example_photo ''b'' ''f2'']"
    by simp
  from C4_playlist_exhaustion [OF d ne len, of "\<lambda>k. 0"] d ne len show ?thesis by blast
qed

section \<open>Properties of the event room\<close>

subsection \<open>The concrete run, evaluated\<close>

lemmas room_defs = handleInitEvent_def new_room_def handleWebSocketUpgrade_def onMessage_def
  join_session_def map_set_def map_delete_def map_has_def handleNotifyPhoto_def
  createRateLimitState_def day_ms_def OPEN_def Let_def

lemma example_room0_eq:
  "example_room0 =
     \<lparr>event = Some \<lparr>e_id = js ''pub'', e_title = Some (js ''Party''), createdAt = 1000,
                     expiresAt = Some 86401000, status = Active, driveFolderId = js ''folder'',
                     displayPassword = None, photoCount = 0, participantCount = 0\<rparr>,
      photos = [], driveFileIdSet = {}, sessions = [], sessionMetadata = [],
      rateLimitState = [], wsToSessionId = [], syncInterval = Some 1, readyState = (\<lambda>ws. 0)\<rparr>"
  by (simp add: example_room0_def room_defs js_def)

lemma example_room1_eq:
  "example_room1 =
     \<lparr>event = Some \<lparr>e_id = js ''pub'', e_title = Some (js ''Party''), createdAt = 1000,
                     expiresAt = Some 86401000, status = Active, driveFolderId = js ''folder'',
                     displayPassword = None, photoCount = 0, participantCount = 1\<rparr>,
      photos = [], driveFileIdSet = {},
      sessions = [(js ''alice'', WebSocket 1)],
      sessionMetadata = [(js ''alice'', \<lparr>ps_id = js ''alice'', ps_activityId = js ''pub'',
                            joinedAt = 2100, role = Participant, isActive = True\<rparr>)],
      rateLimitState = [(js ''alice'', \<lparr>photoUploads = [], danmakuSends = []\<rparr>)],
      wsToSessionId = [(WebSocket 1, js ''alice'')], syncInterval = Some 1,
      readyState = (\<lambda>ws. 0)(WebSocket 1 := 1)\<rparr>"
  by (simp add: example_room1_def example_room0_eq room_defs js_def)

lemma example_room2_eq:
  "example_room2 =
     \<lparr>event = Some \<lparr>e_id = js ''pub'', e_title = Some (js ''Party''), createdAt = 1000,
                     expiresAt = Some 86401000, status = Active, driveFolderId = js ''folder'',
                     displayPassword = None, photoCount = 0, participantCount = 2\<rparr>,
      photos = [], driveFileIdSet = {},
      sessions = [(js ''alice'', WebSocket 1), (js ''screen'', WebSocket 2)],
      sessionMetadata = [(js ''alice'', \<lparr>ps_id = js ''alice'', ps_activityId = js ''pub'',
                            joinedAt = 2100, role = Participant, isActive = True\<rparr>),
                         (js ''screen'', \<lparr>ps_id = js ''screen'', ps_activityId = js ''pub'',
                            joinedAt = 3100, role = Display, isActive = True\<rparr>)],
      rateLimitState = [(js ''alice'', \<lparr>photoUploads = [], danmakuSends = []\<rparr>),
                        (js ''screen'', \<lparr>photoUploads = [], danmakuSends = []\<rparr>)],
      wsToSessionId = [(WebSocket 1, js ''alice''), (WebSocket 2, js ''screen'')],
      syncInterval = Some 1,
      readyState = (\<lambda>ws. 0)(WebSocket 1 := 1, WebSocket 2 := 1)\<rparr>"
  by (simp add: example_room2_def example_room1_eq room_defs js_def)

lemma example_room3_eq:
  "example_room3 =
     \<lparr>event = Some \<lparr>e_id = js ''pub'', e_title = Some (js ''Party''), createdAt = 1000,
                     expiresAt = Some 86401000, status = Active, driveFolderId = js ''folder'',
                     displayPassword = None, photoCount = 1, participantCount = 2\<rparr>,
      photos = [\<lparr>p_id = js ''u3'', p_activityId = js ''pub'', p_sessionId = js ''upload'',
                 driveFileId = js ''1AbCdEfGhIjKlMnOpQrStUv'', thumbnailUrl = js ''https://t/1'',
                 fullUrl = js ''https://f/1'', uploadedAt = 4000,
                 width = Some 800, height = Some 600\<rparr>],
      driveFileIdSet = {js ''1AbCdEfGhIjKlMnOpQrStUv''},
      sessions = [(js ''alice'', WebSocket 1), (js ''screen'', WebSocket 2)],
      sessionMetadata = [(js ''alice'', \<lparr>ps_id = js ''alice'', ps_activityId = js ''pub'',
                            joinedAt = 2100, role = Participant, isActive = True\<rparr>),
                         (js ''screen'', \<lparr>ps_id = js ''screen'', ps_activityId = js ''pub'',
                            joinedAt = 3100, role = Display, isActive = True\<rparr>)],
      rateLimitState = [(js ''alice'', \<lparr>photoUploads = [], danmakuSends = []\<rparr>),
                        (js ''screen'', \<lparr>photoUploads = [], danmakuSends = []\<rparr>)],
      wsToSessionId = [(WebSocket 1, js ''alice''), (WebSocket 2, js ''screen'')],
      syncInterval = Some 1,
      readyState = (\<lambda>ws. 0)(WebSocket 1 := 1, WebSocket 2 := 1)\<rparr>"
  by (simp add: example_room3_def example_room2_eq example_notify_def handleNotifyPhoto_def Let_def)


subsection \<open>The ledger invariant holds in every reachable state\<close>

lemma notify_ledger_ok:
  "ledger_ok s \<Longrightarrow> ledger_ok (fst (snd (handleNotifyPhoto s b ulid now)))"
  by (auto simp add: handleNotifyPhoto_def ledger_ok_def Let_def split: option.splits)


lemma ledger_ok_cong:
  "photos s' = photos s \<Longrightarrow> driveFileIdSet s' = driveFileIdSet s \<Longrightarrow> ledger_ok s \<Longrightarrow> ledger_ok s'"
  by (simp add: ledger_ok_def)

lemma ledger_ok_add:
  "ledger_ok s \<Longrightarrow> driveFileId p \<notin> driveFileIdSet s \<Longrightarrow>
   photos s' = photos s @ [p] \<Longrightarrow> driveFileIdSet s' = insert (driveFileId p) (driveFileIdSet s) \<Longrightarrow>
   ledger_ok s'"
  by (auto simp add: ledger_ok_def)

lemma init_frame:
  "photos (snd (handleInitEvent s i t f now)) = photos s"
  "driveFileIdSet (snd (handleInitEvent s i t f now)) = driveFileIdSet s"
  by (simp_all add: handleInitEvent_def Let_def split: option.splits)

lemma restart_frame:
  "photos (autoRestartEvent s d f now) = photos s"
  "driveFileIdSet (autoRestartEvent s d f now) = driveFileIdSet s"
  by (simp_all add: autoRestartEvent_def split: option.splits sum.splits)

lemma get_frame:
  "photos (snd (handleGetEvent s d f now)) = photos s"
  "driveFileIdSet (snd (handleGetEvent s d f now)) = driveFileIdSet s"
  by (simp_all add: handleGetEvent_def Let_def restart_frame split: option.splits)

lemma end_frame:
  "photos (fst (snd (handleEndEvent s now))) = photos s"
  "driveFileIdSet (fst (snd (handleEndEvent s now))) = driveFileIdSet s"
  by (simp_all add: handleEndEvent_def Let_def stopPhotoSync_def split: option.splits)

lemma upgrade_frame:
  "photos (snd (handleWebSocketUpgrade s d f server tempId now)) = photos s"
  "driveFileIdSet (snd (handleWebSocketUpgrade s d f server tempId now)) = driveFileIdSet s"
  by (simp_all add: handleWebSocketUpgrade_def Let_def restart_frame split: option.splits)

lemma close_frame:
  "photos (onClose s server) = photos s"
  "driveFileIdSet (onClose s server) = driveFileIdSet s"
  by (simp_all add: onClose_def Let_def split: option.splits)

lemma join_frame:
  "photos (fst (join_session s tempId server sid r f now)) = photos s"
  "driveFileIdSet (fst (join_session s tempId server sid r f now)) = driveFileIdSet s"
  by (simp_all add: join_session_def Let_def split: option.splits)

lemma danmaku_frame:
  "photos (fst (handleDanmaku pf s c sid ws ulid now)) = photos s"
  "driveFileIdSet (fst (handleDanmaku pf s c sid ws ulid now)) = driveFileIdSet s"
  by (simp_all add: handleDanmaku_def Let_def split: option.splits)

lemma commit_ledger_ok:
  assumes "ledger_ok s" "m_driveFileId m \<notin> driveFileIdSet s"
    "photo_added_commit s m sid ulid now = Inr (s', effs)"
  shows "ledger_ok s'"
  using assms
  by (auto simp add: photo_added_commit_def Let_def ledger_ok_def split: option.splits)

lemma photo_added_ledger_ok:
  assumes "ledger_ok s" "handlePhotoAdded s m sid ws ulid now = Inr (s', effs)"
  shows "ledger_ok s'"
  using assms
  by (auto simp add: handlePhotoAdded_def Let_def split: if_splits option.splits
      intro: commit_ledger_ok)

lemma ws_message_ledger_ok:
  assumes "ledger_ok s" "handleWebSocketMessage pf s msg sid ws ulid now = Inr (s', effs)"
  shows "ledger_ok s'"
proof -
  have dm: "ledger_ok (fst (handleDanmaku pf s c sid ws ulid now))" for c
    using assms(1) by (rule ledger_ok_cong [rotated 2]) (simp_all add: danmaku_frame)
  have ex: "ledger_ok (s\<lparr>readyState := rs\<rparr>)" for rs
    using assms(1) by (simp add: ledger_ok_def)
  show ?thesis
    using assms dm ex
    by (auto simp add: handleWebSocketMessage_def Let_def
        split: if_splits option.splits ClientMessage.splits
        intro: photo_added_ledger_ok) (metis fst_conv)+
qed


lemma on_message_ledger_ok:
  assumes "ledger_ok s"
  shows "ledger_ok (fst (onMessage pf s tempId server msg msid f ulid now))"
proof -
  have j: "ledger_ok (fst (join_session s tempId server sid r f now))" for sid r
    using assms by (rule ledger_ok_cong [rotated 2]) (simp_all add: join_frame)
  have d: "ledger_ok (fst (case handleWebSocketMessage pf s msg tempId server ulid now of
                             Inl e \<Rightarrow> (s, [Send server invalid_message]) | Inr r \<Rightarrow> r))"
  proof (cases "handleWebSocketMessage pf s msg tempId server ulid now")
    case (Inl e)
    then show ?thesis using assms by simp
  next
    case (Inr r)
    obtain s' effs where r: "r = (s', effs)" by (cases r)
    with Inr assms have "ledger_ok s'" by (auto intro: ws_message_ledger_ok)
    with Inr r show ?thesis by simp
  qed
  show ?thesis
    using j d by (auto simp add: onMessage_def Let_def split: ClientMessage.splits option.splits)
qed

lemma sync_file_ledger_ok:
  assumes "ledger_ok (fst acc)"
  shows "ledger_ok (fst (sync_file a acc entry))"
proof -
  obtain s np where acc: "acc = (s, np)" by (cases acc)
  obtain fl ulid now where entry: "entry = (fl, ulid, now)" by (cases entry)
  show ?thesis
    using assms unfolding acc entry
    by (auto simp add: sync_file_def Let_def ledger_ok_def)
qed

lemma sync_fold_ledger_ok:
  "ledger_ok (fst acc) \<Longrightarrow> ledger_ok (fst (foldl (sync_file a) acc files))"
  by (induction files arbitrary: acc) (simp_all add: sync_file_ledger_ok)

lemma sync_merge_ledger_ok:
  assumes "ledger_ok s"
  shows "ledger_ok (fst (sync_merge s files))"
proof (cases "event s")
  case None
  then show ?thesis using assms by (simp add: sync_merge_def)
next
  case (Some e)
  obtain s1 np where f: "foldl (sync_file (e_id e)) (s, []) files = (s1, np)"
    by (cases "foldl (sync_file (e_id e)) (s, []) files")
  from sync_fold_ledger_ok [of "(s, [])" "e_id e" files] assms f
  have "ledger_ok s1" by simp
  then have "ledger_ok (s1\<lparr>event := Some (e\<lparr>photoCount := length (photos s1)\<rparr>)\<rparr>)"
    by (simp add: ledger_ok_def)
  with Some f assms show ?thesis by (simp add: sync_merge_def Let_def)
qed

lemma reachable_ledger_ok: "reachable pf s \<Longrightarrow> ledger_ok s"
proof (induction rule: reachable.induct)
  case (fresh rs)
  show ?case by (simp add: ledger_ok_def new_room_def)
next
  case (init s b_id b_title b_folder now)
  from init.IH show ?case by (rule ledger_ok_cong [rotated 2]) (simp_all add: init_frame)
next
  case (get s doName folderName now)
  from get.IH show ?case by (rule ledger_ok_cong [rotated 2]) (simp_all add: get_frame)
next
  case (finish s now)
  from finish.IH show ?case by (rule ledger_ok_cong [rotated 2]) (simp_all add: end_frame)
next
  case (notify s b ulid now)
  from notify.IH show ?case by (rule notify_ledger_ok)
next
  case (upgrade s doName folderName server tempId now)
  from upgrade.IH show ?case by (rule ledger_ok_cong [rotated 2]) (simp_all add: upgrade_frame)
next
  case (message s tempId server msg msgSessionId folderName ulid now)
  from message.IH show ?case by (rule on_message_ledger_ok)
next
  case (close s server)
  from close.IH show ?case by (rule ledger_ok_cong [rotated 2]) (simp_all add: close_frame)
next
  case (sync s allFiles)
  from sync.IH show ?case by (rule sync_merge_ledger_ok)
next
  case (socket s rs)
  from socket.IH show ?case by (simp add: ledger_ok_def)
qed

text \<open>The room of the concrete run is a reachable state.\<close>

lemma example_room3_reachable: "reachable ascii_platform example_room3"
  unfolding example_room3_def example_room2_def example_room1_def example_room0_def
  by (intro reachable.notify reachable.message reachable.upgrade reachable.init reachable.fresh)

subsection \<open>Push notification of a photo\<close>

lemma count_one_of_distinct:
  "distinct (map f xs) \<Longrightarrow> a \<in> set (map f xs) \<Longrightarrow> length (filter (\<lambda>p. f p = a) xs) = 1"
proof (induction xs)
  case Nil
  then show ?case by simp
next
  case (Cons x xs)
  show ?case
  proof (cases "f x = a")
    case True
    with Cons.prems(1) have "a \<notin> set (map f xs)" by auto
    then have "filter (\<lambda>p. f p = a) xs = []" by (auto simp add: filter_empty_conv)
    with True show ?thesis by simp
  next
    case False
    with Cons.prems have "distinct (map f xs)" "a \<in> set (map f xs)" by auto
    with Cons.IH False show ?thesis by simp
  qed
qed

lemma notify_indexed:
  assumes "event s = Some e" "status e = Active"
  shows "n_driveFileId b \<in> driveFileIdSet (fst (snd (handleNotifyPhoto s b ulid now)))"
  using assms by (simp add: handleNotifyPhoto_def Let_def)

lemma notify_keeps_active:
  assumes "event s = Some e" "status e = Active"
  shows "\<exists>e'. event (fst (snd (handleNotifyPhoto s b ulid now))) = Some e' \<and> status e' = Active"
  using assms by (simp add: handleNotifyPhoto_def Let_def)

lemma notify_duplicate:
  assumes "event s = Some e" "status e = Active" "n_driveFileId b \<in> driveFileIdSet s"
  shows "handleNotifyPhoto s b ulid now
         = (\<lparr>http_status = 200, http_body = Success_duplicate_body\<rparr>, s, [])"
  using assms by (simp add: handleNotifyPhoto_def)

text \<open>
  C1. In a state that satisfies the ledger invariant (every reachable state does, see
  \<open>reachable_ledger_ok\<close>) and holds an active event, two calls of
  \<open>handleNotifyPhoto\<close> with the same \<open>driveFileId\<close>, whatever the other fields, the
  ids and the clock are: the second call answers 200 with \<open>{success: true, duplicate:
  true}\<close>, changes nothing and sends nothing, and the ledger then holds exactly one photo
  with that \<open>driveFileId\<close>.
\<close>

theorem C1_notify_dedup:
  assumes inv: "ledger_ok s"
    and ev: "event s = Some e"
    and act: "status e = Active"
    and same: "n_driveFileId b2 = n_driveFileId b1"
  shows "handleNotifyPhoto (fst (snd (handleNotifyPhoto s b1 ulid1 now1))) b2 ulid2 now2
           = (\<lparr>http_status = 200, http_body = Success_duplicate_body\<rparr>,
              fst (snd (handleNotifyPhoto s b1 ulid1 now1)), [])
       \<and> length (filter (\<lambda>p. driveFileId p = n_driveFileId b1)
                   (photos (fst (snd (handleNotifyPhoto s b1 ulid1 now1))))) = 1"
proof -
  let ?s1 = "fst (snd (handleNotifyPhoto s b1 ulid1 now1))"
  from notify_keeps_active [OF ev act, of b1 ulid1 now1]
  obtain e1 where ev1: "event ?s1 = Some e1" and act1: "status e1 = Active" by blast
  have idx: "n_driveFileId b2 \<in> driveFileIdSet ?s1"
    using notify_indexed [OF ev act, of b1 ulid1 now1] same by simp
  have second: "handleNotifyPhoto ?s1 b2 ulid2 now2
                = (\<lparr>http_status = 200, http_body = Success_duplicate_body\<rparr>, ?s1, [])"
    using ev1 act1 idx by (rule notify_duplicate)
  have ok1: "ledger_ok ?s1" using inv by (rule notify_ledger_ok)
  then have d: "distinct (map driveFileId (photos ?s1))"
    and m: "n_driveFileId b1 \<in> set (map driveFileId (photos ?s1))"
    using idx same by (simp_all add: ledger_ok_def)
  from d m have "length (filter (\<lambda>p. driveFileId p = n_driveFileId b1) (photos ?s1)) = 1"
    by (rule count_one_of_distinct)
  with second show ?thesis by simp
qed

theorem C1_notify_dedup_witness:
  "ledger_ok example_room2
   \<and> event example_room2 =
       Some \<lparr>e_id = js ''pub'', e_title = Some (js ''Party''), createdAt = 1000,
             expiresAt = Some 86401000, status = Active, driveFolderId = js ''folder'',
             displayPassword = None, photoCount = 0, participantCount = 2\<rparr>
   \<and> handleNotifyPhoto (fst (snd (handleNotifyPhoto example_room2 example_notify (js ''u3'') 4000)))
         example_notify (js ''u4'') 4500
       = (\<lparr>http_status = 200, http_body = Success_duplicate_body\<rparr>,
          fst (snd (handleNotifyPhoto example_room2 example_notify (js ''u3'') 4000)), [])
   \<and> length (filter (\<lambda>p. driveFileId p = n_driveFileId example_notify)
               (photos (fst (snd (handleNotifyPhoto example_room2 example_notify (js ''u3'') 4000)))))
       = 1"
proof -
  let ?e = "\<lparr>e_id = js ''pub'', e_title = Some (js ''Party''), createdAt = 1000,
             expiresAt = Some 86401000, status = Active, driveFolderId = js ''folder'',
             displayPassword = None, photoCount = 0, participantCount = 2\<rparr>"
  have inv: "ledger_ok example_room2"
    by (simp add: example_room2_eq ledger_ok_def)
  have ev: "event example_room2 = Some ?e"
    by (simp add: example_room2_eq)
  have act: "status ?e = Active" by simp
  from C1_notify_dedup [OF inv ev act refl, of example_notify "js ''u3''" 4000 "js ''u4''" 4500]
    inv ev
  show ?thesis by blast
qed
subsection \<open>Ending an event, and its resurrection\<close>

lemma broadcast_stop [simp]: "broadcast (stopPhotoSync s) m = broadcast s m"
  by (simp add: broadcast_def stopPhotoSync_def split: option.splits)

lemma stop_fields [simp]:
  "event (stopPhotoSync s) = event s" "photos (stopPhotoSync s) = photos s"
  "driveFileIdSet (stopPhotoSync s) = driveFileIdSet s" "sessions (stopPhotoSync s) = sessions s"
  "syncInterval (stopPhotoSync s) = None" "readyState (stopPhotoSync s) = readyState s"
  by (simp_all add: stopPhotoSync_def split: option.splits)

lemma end_result:
  assumes ev: "event s = Some e"
  shows "fst (handleEndEvent s now)
           = \<lparr>http_status = 200, http_body = Success_event_body (e\<lparr>status := Ended\<rparr>)\<rparr>"
    and "event (fst (snd (handleEndEvent s now))) = Some (e\<lparr>status := Ended\<rparr>)"
    and "photos (fst (snd (handleEndEvent s now))) = photos s"
    and "driveFileIdSet (fst (snd (handleEndEvent s now))) = driveFileIdSet s"
    and "sessions (fst (snd (handleEndEvent s now))) = []"
    and "sessionMetadata (fst (snd (handleEndEvent s now))) = []"
    and "rateLimitState (fst (snd (handleEndEvent s now))) = []"
    and "wsToSessionId (fst (snd (handleEndEvent s now))) = []"
    and "syncInterval (fst (snd (handleEndEvent s now))) = None"
  using ev by (simp_all add: handleEndEvent_def Let_def)






text \<open>
  C7. When an upgrade request meets a resident event whose status is \<open>ended\<close>, the state
  that \<open>handleWebSocketUpgrade\<close> leaves has the event back at \<open>active\<close> with
  \<open>expiresAt\<close> set to the current time plus 24 hours (86400000 ms), whether or not the
  connection is admitted. It is admitted (status 101, the socket registered under its
  placeholder identity) exactly when fewer than 500 connections are registered; so every
  admitted connection finds the event active.
\<close>

theorem C7_resurrection:
  assumes ev: "event s = Some e" and ended: "status e = Ended"
  shows "event (snd (handleWebSocketUpgrade s doName folderName server tempId now))
           = Some (e\<lparr>status := Active, expiresAt := Some (now + 24 * 60 * 60 * 1000)\<rparr>)
       \<and> (http_status (fst (handleWebSocketUpgrade s doName folderName server tempId now)) = 101)
           = (length (sessions s) < 500)
       \<and> (if length (sessions s) < 500
          then map_of (sessions (snd (handleWebSocketUpgrade s doName folderName server tempId now))) tempId
                 = Some server
          else sessions (snd (handleWebSocketUpgrade s doName folderName server tempId now)) = sessions s)"
  using ev ended
  by (simp add: handleWebSocketUpgrade_def Let_def day_ms_def map_set_def update_conv' )

theorem C7_resurrection_witness:
  "event (fst (snd (handleEndEvent example_room3 9000)))
     = Some \<lparr>e_id = js ''pub'', e_title = Some (js ''Party''), createdAt = 1000,
             expiresAt = Some 86401000, status = Ended, driveFolderId = js ''folder'',
             displayPassword = None, photoCount = 1, participantCount = 2\<rparr>
   \<and> event (snd (handleWebSocketUpgrade (fst (snd (handleEndEvent example_room3 9000)))
                   None None (WebSocket 3) (js ''t3'') 10000))
     = Some \<lparr>e_id = js ''pub'', e_title = Some (js ''Party''), createdAt = 1000,
             expiresAt = Some 86410000, status = Active, driveFolderId = js ''folder'',
             displayPassword = None, photoCount = 1, participantCount = 2\<rparr>
   \<and> http_status (fst (handleWebSocketUpgrade (fst (snd (handleEndEvent example_room3 9000)))
                   None None (WebSocket 3) (js ''t3'') 10000)) = 101"
proof -
  let ?e = "\<lparr>e_id = js ''pub'', e_title = Some (js ''Party''), createdAt = 1000,
             expiresAt = Some 86401000, status = Active, driveFolderId = js ''folder'',
             displayPassword = None, photoCount = 1, participantCount = 2\<rparr>"
  let ?s = "fst (snd (handleEndEvent example_room3 9000))"
  have ev3: "event example_room3 = Some ?e"
    by (simp add: example_room3_eq)
  have ev: "event ?s = Some (?e\<lparr>status := Ended\<rparr>)"
    and ss: "sessions ?s = []"
    using end_result [OF ev3, of 9000] by simp_all
  have ended: "status (?e\<lparr>status := Ended\<rparr>) = Ended" by simp
  from C7_resurrection [OF ev ended, of None None "WebSocket 3" "js ''t3''" 10000] ev ss
  show ?thesis by simp
qed
subsection \<open>Photo submissions and danmaku over a socket\<close>



lemma broadcast_cong:
  "sessions s' = sessions s \<Longrightarrow> readyState s' = readyState s \<Longrightarrow> broadcast s' m = broadcast s m"
  by (simp add: broadcast_def)

lemma broadcastToDisplays_cong:
  "sessions s' = sessions s \<Longrightarrow> readyState s' = readyState s \<Longrightarrow>
   sessionMetadata s' = sessionMetadata s \<Longrightarrow> broadcastToDisplays s' m = broadcastToDisplays s m"
  by (simp add: broadcastToDisplays_def is_display_def)










lemmas danmaku_eval = validateDanmakuContent_def containsProfanity_def trim_def
  is_js_whitespace_def ascii_platform_def ascii_lower_def ascii_upper_def BLACKLIST_def
  filterProfanity_def filter_step_def join_def js_def Let_def

lemmas photo_eval = validatePhotoUpload_def drive_id_like_def is_word_or_dash_def
  example_message_def join_def js_def Let_def





lemma profane_is_invalid:
  assumes "containsProfanity pf content"
  shows "\<exists>text. handleDanmaku pf s content sessionId ws ulid now
                 = (s, [Send ws (Error_msg (js ''INVALID_DANMAKU'') text None)])"
  using assms by (simp add: handleDanmaku_def validateDanmakuContent_def Let_def)

text \<open>
  C9, at the failing input. \<open>validateDanmakuContent\<close> already runs
  \<open>containsProfanity\<close>, so a message that fails the profanity predicate is rejected by
  the first check of \<open>handleDanmaku\<close> with the code \<open>INVALID_DANMAKU\<close>, the code of a
  length violation, and never reaches the branch that would answer
  \<open>PROFANITY_DETECTED\<close>. For the content \<open>fuck\<close> (four characters, within the length
  rule) and for the empty content the code sends the same error code; both answers go to
  the originating socket only, and the state is unchanged.
\<close>

theorem C9_same_error_code:
  "handleDanmaku ascii_platform s (js ''fuck'') sessionId ws ulid now
     = (s, [Send ws (Error_msg (js ''INVALID_DANMAKU'')
                       (js ''Danmaku contains inappropriate content'') None)])
   \<and> handleDanmaku ascii_platform s [] sessionId ws ulid now
     = (s, [Send ws (Error_msg (js ''INVALID_DANMAKU'')
                       (js ''Danmaku content cannot be empty'') None)])
   \<and> containsProfanity ascii_platform (js ''fuck'')
   \<and> \<not> containsProfanity ascii_platform []"
proof -
  have p: "containsProfanity ascii_platform (js ''fuck'')"
    by (simp add: danmaku_eval)
  have q: "\<not> containsProfanity ascii_platform []"
    by (simp add: danmaku_eval)
  have a: "validateDanmakuContent ascii_platform (js ''fuck'')
           = \<lparr>valid = False, errors = [js ''Danmaku contains inappropriate content'']\<rparr>"
    using p by (simp add: validateDanmakuContent_def trim_def is_js_whitespace_def js_def)
  have b: "validateDanmakuContent ascii_platform []
           = \<lparr>valid = False, errors = [js ''Danmaku content cannot be empty'']\<rparr>"
    using q by (simp add: validateDanmakuContent_def js_def)
  have ja: "join (js '', '') [x] = x" for x by (simp add: join_def)
  from a b p q show ?thesis
    by (simp add: handleDanmaku_def Let_def ja)
qed

text \<open>
  C10, as stated, fails for a submission that does not pass validation: validation comes
  before the dedup check, so a message whose file reference is already in the ledger but
  whose thumbnail URL is not HTTPS is answered with an \<open>INVALID_PHOTO\<close> error.
\<close>

theorem C10_duplicate_counterexample:
  "reachable ascii_platform example_room3
   \<and> m_driveFileId (example_message ''1AbCdEfGhIjKlMnOpQrStUv'' ''http://t/2'')
     \<in> driveFileIdSet example_room3
   \<and> handlePhotoAdded example_room3 (example_message ''1AbCdEfGhIjKlMnOpQrStUv'' ''http://t/2'')
       (js ''t1'') (WebSocket 1) (js ''u4'') 5000
     = Inr (example_room3,
            [Send (WebSocket 1) (Error_msg (js ''INVALID_PHOTO'') (js ''Invalid thumbnail URL'') None)])"
proof -
  have v: "validatePhotoUpload (js ''1AbCdEfGhIjKlMnOpQrStUv'') (js ''http://t/2'') (js ''https://f/2'')
           = \<lparr>valid = False, errors = [js ''Invalid thumbnail URL'']\<rparr>"
    by (simp add: photo_eval)
  have d: "js ''1AbCdEfGhIjKlMnOpQrStUv'' \<in> driveFileIdSet example_room3"
    by (simp add: example_room3_eq)
  have ja: "join (js '', '') [x] = x" for x by (simp add: join_def)
  from v d example_room3_reachable show ?thesis
    by (simp add: handlePhotoAdded_def example_message_def Let_def ja)
qed

text \<open>
  C10, amended. A \<open>photo_added\<close> message whose file reference is already in the dedup
  index leaves the whole state as it is (so the sender's rate-limit log, the ledger and
  the dedup index are unchanged). When the message passes validation nothing is sent to
  any socket; when it does not, the only message is the \<open>INVALID_PHOTO\<close> error to the
  originating socket.
\<close>

theorem C10_duplicate_submission:
  assumes dup: "m_driveFileId m \<in> driveFileIdSet s"
  shows "handlePhotoAdded s m sessionId ws ulid now
         = Inr (s, if valid (validatePhotoUpload (m_driveFileId m) (m_thumbnailUrl m) (m_fullUrl m))
                   then []
                   else [Send ws (Error_msg (js ''INVALID_PHOTO'')
                           (join (js '', '')
                              (errors (validatePhotoUpload (m_driveFileId m) (m_thumbnailUrl m)
                                         (m_fullUrl m))))
                           None)])"
proof (cases "valid (validatePhotoUpload (m_driveFileId m) (m_thumbnailUrl m) (m_fullUrl m))")
  case True
  with dup show ?thesis by (simp add: handlePhotoAdded_def Let_def)
next
  case False
  then show ?thesis by (simp add: handlePhotoAdded_def Let_def)
qed

theorem C10_duplicate_submission_witness:
  "m_driveFileId (example_message ''1AbCdEfGhIjKlMnOpQrStUv'' ''https://t/2'')
     \<in> driveFileIdSet example_room3
   \<and> handlePhotoAdded example_room3 (example_message ''1AbCdEfGhIjKlMnOpQrStUv'' ''https://t/2'')
       (js ''alice'') (WebSocket 1) (js ''u4'') 5000
     = Inr (example_room3, [])"
proof -
  let ?m = "example_message ''1AbCdEfGhIjKlMnOpQrStUv'' ''https://t/2''"
  have d: "m_driveFileId ?m \<in> driveFileIdSet example_room3"
    by (simp add: example_room3_eq example_message_def)
  have v: "valid (validatePhotoUpload (m_driveFileId ?m) (m_thumbnailUrl ?m) (m_fullUrl ?m))"
    by (simp add: photo_eval)
  from C10_duplicate_submission [OF d, of "js ''alice''" "WebSocket 1" "js ''u4''" 5000] v d
  show ?thesis by simp
qed
section \<open>Properties of the identifier codec\<close>

text \<open>The codec on inputs taken from the repository's tests.\<close>

lemma encryptId_example: "encryptId (js ''12345'') = Inr (js ''XFdeUVs'')"
  by (simp add: encryptId_def btoa_def xor_with_key_def KEY_def js_def b64_char_def
      replace_all_def strip_trailing_eq_def)

lemma decryptId_example: "decryptId (js ''XFdeUVs'') = js ''12345''"
  by code_simp

lemma decryptId_invalid: "decryptId (js ''!!!'') = []"
  by code_simp

lemma KEY_small: "k \<in> set KEY \<Longrightarrow> k \<le> 0x7F"
  by (auto simp add: KEY_def js_def)

lemma KEY_nth_small: "KEY ! (i mod length KEY) \<le> 0x7F"
proof -
  have "length KEY > 0" by (simp add: KEY_def js_def)
  then have "i mod length KEY < length KEY" by simp
  then have "KEY ! (i mod length KEY) \<in> set KEY" by (rule nth_mem)
  then show ?thesis by (rule KEY_small)
qed

lemma length_xor_with_key [simp]: "length (xor_with_key x) = length x"
  by (simp add: xor_with_key_def)

lemma nth_xor_with_key:
  "i < length x \<Longrightarrow> xor_with_key x ! i = x ! i XOR KEY ! (i mod length KEY)"
  by (simp add: xor_with_key_def nth_enumerate_eq)

lemma xor_with_key_involution: "xor_with_key (xor_with_key x) = x"
  by (rule nth_equalityI) (simp_all add: nth_xor_with_key xor.assoc)

lemma le_FF_iff: "(w \<le> 0xFF) = (take_bit 8 w = w)" for w :: "16 word"
proof -
  have "(take_bit 8 w = w) = (unat (take_bit 8 w) = unat w)"
    by (simp add: word_unat_eq_iff)
  also have "\<dots> = (take_bit 8 (unat w) = unat w)"
    by (simp add: unsigned_take_bit_eq)
  also have "\<dots> = (unat w < 2 ^ 8)"
    by (rule take_bit_nat_eq_self_iff)
  also have "\<dots> = (w \<le> 0xFF)"
    by (simp add: word_le_nat_alt) arith
  finally show ?thesis by simp
qed

lemma high_bits_xor:
  fixes c k :: "16 word"
  assumes "k \<le> 0x7F"
  shows "(c XOR k \<le> 0xFF) = (c \<le> 0xFF)"
proof -
  from assms have "k \<le> 0xFF" by (simp add: word_le_nat_alt)
  then have k: "take_bit 8 k = k" by (simp only: le_FF_iff)
  have "(take_bit 8 (c XOR k) = c XOR k) = (take_bit 8 c XOR k = c XOR k)"
    by (simp add: k)
  also have "\<dots> = (take_bit 8 c = c)"
    by (metis xor.assoc xor_self_eq xor.right_neutral)
  finally show ?thesis by (simp only: le_FF_iff)
qed

lemma list_ex_nth: "list_ex P xs = (\<exists>i < length xs. P (xs ! i))"
  by (auto simp add: list_ex_iff in_set_conv_nth intro: nth_mem)

lemma xor_with_key_bytes:
  "list_ex (\<lambda>c. c > 0xFF) (xor_with_key x) = list_ex (\<lambda>c. c > 0xFF) x"
proof -
  have step: "(xor_with_key x ! i > 0xFF) = (x ! i > 0xFF)" if "i < length x" for i
    using high_bits_xor [OF KEY_nth_small, of "x ! i" i] that
    by (simp add: nth_xor_with_key flip: not_le)
  have "(\<exists>i < length x. xor_with_key x ! i > 0xFF) = (\<exists>i < length x. x ! i > 0xFF)"
    using step by blast
  then show ?thesis by (simp add: list_ex_nth)
qed

lemma alphabet_all: "list_all alphabet_ok [0..<64]"
  by code_simp

lemma alphabet_facts: "n < 64 \<Longrightarrow> alphabet_ok n"
  using alphabet_all by (simp add: list_all_iff)


lemma b64enc_shape: "b64enc bs = map b64_char (sextets bs) @ replicate (npad bs) 0x3D"
  by (induction bs rule: sextets.induct) (simp_all add: numeral_2_eq_2)

lemma group_bounds:
  fixes x y :: nat
  shows "x < 4 \<Longrightarrow> y < 16 \<Longrightarrow> x * 16 + y < 64"
    and "y < 16 \<Longrightarrow> x < 4 \<Longrightarrow> y * 4 + x < 64"
  by simp_all

lemma byte_parts:
  fixes b :: nat
  assumes "b < 256"
  shows "b div 4 < 64" "b div 16 < 16" "b div 64 < 4"
  using assms by simp_all

lemma sextets_small:
  "list_all (\<lambda>b. b < 256) bs \<Longrightarrow> list_all (\<lambda>v. v < 64) (sextets bs)"
proof (induction bs rule: sextets.induct)
  case 1
  then show ?case by simp
next
  case (2 a)
  then have a: "a < 256" by simp
  have "a mod 4 * 16 + 0 < 64" by (rule group_bounds(1)) simp_all
  with byte_parts(1) [OF a] show ?case by simp
next
  case (3 a b)
  then have a: "a < 256" and b: "b < 256" by simp_all
  have "a mod 4 * 16 + b div 16 < 64"
    by (rule group_bounds(1)) (simp_all add: byte_parts [OF b])
  moreover have "b mod 16 * 4 + 0 < 64" by (rule group_bounds(2)) simp_all
  ultimately show ?case using byte_parts(1) [OF a] by simp
next
  case (4 a b c rest)
  then have a: "a < 256" and b: "b < 256" and c: "c < 256"
    and r: "list_all (\<lambda>b. b < 256) rest" by simp_all
  have "a mod 4 * 16 + b div 16 < 64"
    by (rule group_bounds(1)) (simp_all add: byte_parts [OF b])
  moreover have "b mod 16 * 4 + c div 64 < 64"
    by (rule group_bounds(2)) (simp_all add: byte_parts [OF c])
  ultimately show ?case using byte_parts(1) [OF a] "4.IH" [OF r] by simp
qed

lemma regroup:
  fixes x y :: nat
  assumes "y < 16"
  shows "(x * 16 + y) div 16 = x" "(x * 16 + y) mod 16 = y"
  using assms by simp_all

lemma regroup4:
  fixes x y :: nat
  assumes "y < 4"
  shows "(x * 4 + y) div 4 = x" "(x * 4 + y) mod 4 = y"
  using assms by simp_all

lemma b64dec_sextets:
  "list_all (\<lambda>b. b < 256) bs \<Longrightarrow> b64dec (sextets bs) = bs"
proof (induction bs rule: sextets.induct)
  case 1
  then show ?case by simp
next
  case (2 a)
  have "(a mod 4 * 16 + 0) div 16 = a mod 4" by (rule regroup) simp
  then show ?case by (simp add: div_mult_mod_eq)
next
  case (3 a b)
  then have b: "b < 256" by simp
  note p = byte_parts [OF b]
  have "(b mod 16 * 4 + 0) div 4 = b mod 16" by (rule regroup4) simp
  then show ?case by (simp add: regroup [OF p(2)] mod_less [OF p(2)] div_mult_mod_eq)
next
  case (4 a b c rest)
  then have b: "b < 256" and c: "c < 256" and r: "list_all (\<lambda>b. b < 256) rest" by simp_all
  note pb = byte_parts [OF b]
  note pc = byte_parts [OF c]
  have "b64dec (sextets rest) = rest" using r by (rule "4.IH")
  then show ?case
    by (simp add: regroup [OF pb(2)] regroup4 [OF pc(3)] mod_less [OF pb(2)] mod_less [OF pc(3)]
        div_mult_mod_eq)
qed

lemma sextets_length:
  "length (sextets bs) mod 4 = (4 - npad bs) mod 4 \<and> npad bs \<le> 2"
  by (induction bs rule: sextets.induct) simp_all

lemma sextets_nonempty: "bs \<noteq> [] \<Longrightarrow> sextets bs \<noteq> []"
  by (cases bs rule: sextets.cases) simp_all

lemma all_vals_alphabet:
  "list_all (\<lambda>v. v < 64) vs \<Longrightarrow> all_vals (map b64_char vs) = Some vs"
proof (induction vs)
  case Nil
  then show ?case by simp
next
  case (Cons v vs)
  then have "v < 64" by simp
  then have "b64_val (b64_char v) = Some v"
    using alphabet_facts [of v] by (simp add: alphabet_ok_def)
  with Cons show ?case by simp
qed

lemma replace_to_url_safe:
  "replace_all 0x2F 0x5F (replace_all 0x2B 0x2D s) = map url_safe s"
  by (simp add: replace_all_def url_safe_def)

lemma replace_to_url_unsafe:
  "replace_all 0x5F 0x2F (replace_all 0x2D 0x2B s) = map url_unsafe s"
  by (simp add: replace_all_def url_unsafe_def)

lemma url_unsafe_safe:
  "list_all (\<lambda>v. v < 64) vs \<Longrightarrow> map url_unsafe (map url_safe (map b64_char vs)) = map b64_char vs"
proof (induction vs)
  case Nil
  then show ?case by simp
next
  case (Cons v vs)
  then have "v < 64" by simp
  then have "url_unsafe (url_safe (b64_char v)) = b64_char v"
    using alphabet_facts [of v] by (simp add: alphabet_ok_def)
  with Cons show ?case by simp
qed

lemma url_safe_eq [simp]: "url_safe 0x3D = 0x3D"
  by (simp add: url_safe_def)

lemma dropWhile_replicate: "P x \<Longrightarrow> dropWhile P (replicate n x @ ys) = dropWhile P ys"
  by (induction n) simp_all

lemma dropWhile_stop: "ys = [] \<or> \<not> P (hd ys) \<Longrightarrow> dropWhile P ys = ys"
  by (cases ys) auto

lemma last_alphabet:
  assumes "list_all (\<lambda>v. v < 64) vs" "vs \<noteq> []"
  shows "last (map b64_char vs) \<noteq> 0x3D" "last (map url_safe (map b64_char vs)) \<noteq> 0x3D"
proof -
  from assms have "last vs < 64" by (simp add: list_all_iff)
  then have "alphabet_ok (last vs)" by (rule alphabet_facts)
  then show "last (map b64_char vs) \<noteq> 0x3D" "last (map url_safe (map b64_char vs)) \<noteq> 0x3D"
    using assms(2) by (simp_all add: alphabet_ok_def last_map)
qed

lemma strip_trailing_eq_shape:
  assumes "list_all (\<lambda>v. v < 64) vs"
  shows "strip_trailing_eq (map url_safe (map b64_char vs @ replicate p 0x3D))
         = map url_safe (map b64_char vs)"
proof -
  let ?b = "map url_safe (map b64_char vs)"
  have stop: "rev ?b = [] \<or> \<not> (\<lambda>c. c = 0x3D) (hd (rev ?b))"
  proof (cases "vs = []")
    case True
    then show ?thesis by simp
  next
    case False
    with assms have "last ?b \<noteq> 0x3D" by (rule last_alphabet)
    with False show ?thesis by (simp add: hd_rev)
  qed
  have "rev (map url_safe (map b64_char vs @ replicate p 0x3D)) = replicate p 0x3D @ rev ?b"
    by simp
  then have "dropWhile (\<lambda>c. c = 0x3D) (rev (map url_safe (map b64_char vs @ replicate p 0x3D)))
             = dropWhile (\<lambda>c. c = 0x3D) (rev ?b)"
    by (simp only: dropWhile_replicate)
  also have "\<dots> = rev ?b" using stop by (rule dropWhile_stop)
  finally show ?thesis by (simp add: strip_trailing_eq_def)
qed

lemma no_whitespace:
  assumes "list_all (\<lambda>v. v < 64) vs"
  shows "filter (\<lambda>c. \<not> is_ascii_whitespace c) (map b64_char vs @ replicate p 0x3D)
         = map b64_char vs @ replicate p 0x3D"
proof -
  have "\<not> is_ascii_whitespace (b64_char v)" if "v \<in> set vs" for v
  proof -
    from assms that have "v < 64" by (simp add: list_all_iff)
    then show ?thesis using alphabet_facts [of v] by (simp add: alphabet_ok_def)
  qed
  moreover have "\<not> is_ascii_whitespace 0x3D" by (simp add: is_ascii_whitespace_def)
  ultimately show ?thesis by (auto simp add: filter_id_conv)
qed

lemma strip_padding_shape:
  assumes small: "list_all (\<lambda>v. v < 64) vs"
    and len: "length vs mod 4 = (4 - p) mod 4"
    and p: "p \<le> 2"
  shows "strip_padding (map b64_char vs @ replicate p 0x3D) = map b64_char vs"
proof -
  let ?b = "map b64_char vs"
  have lastb: "last ?b \<noteq> 0x3D" if "vs \<noteq> []"
    using small that by (rule last_alphabet)
  from p consider "p = 0" | "p = 1" | "p = 2" by linarith
  then show ?thesis
  proof cases
    case 1
    show ?thesis
    proof (cases "vs = []")
      case True
      with 1 show ?thesis by (simp add: strip_padding_def)
    next
      case False
      with lastb 1 show ?thesis by (simp add: strip_padding_def)
    qed
  next
    case 2
    with len have l3: "length vs mod 4 = 3" by simp
    then have ne: "vs \<noteq> []" by auto
    from l3 have l0: "Suc (length vs) mod 4 = 0" by (simp add: mod_Suc)
    have "strip_padding (?b @ [0x3D]) = ?b"
      using lastb [OF ne] ne l0 by (simp add: strip_padding_def butlast_append)
    with 2 show ?thesis by simp
  next
    case 3
    with len have l2: "length vs mod 4 = 2" by simp
    then have l0: "Suc (Suc (length vs)) mod 4 = 0" by (simp add: mod_Suc)
    have "strip_padding (?b @ [0x3D, 0x3D]) = ?b"
      using l0 by (simp add: strip_padding_def butlast_append)
    with 3 show ?thesis by (simp add: numeral_2_eq_2)
  qed
qed

lemma atob_shape:
  assumes small: "list_all (\<lambda>v. v < 64) vs"
    and len: "length vs mod 4 = (4 - p) mod 4"
    and p: "p \<le> 2"
  shows "atob (map b64_char vs @ replicate p 0x3D) = Inr (map of_nat (b64dec vs))"
proof -
  from p consider "p = 0" | "p = 1" | "p = 2" by linarith
  then have l: "length (map b64_char vs) mod 4 \<noteq> 1" using len by cases simp_all
  have "atob (map b64_char vs @ replicate p 0x3D)
        = (if length (map b64_char vs) mod 4 = 1 then Inl InvalidCharacterError
           else (case all_vals (map b64_char vs) of None \<Rightarrow> Inl InvalidCharacterError
                 | Some vs \<Rightarrow> Inr (map of_nat (b64dec vs))))"
    by (simp only: atob_def no_whitespace [OF small] strip_padding_shape [OF small len p] Let_def)
  also have "\<dots> = Inr (map of_nat (b64dec vs))"
    using l by (simp only: all_vals_alphabet [OF small]) simp
  finally show ?thesis .
qed

lemma pad_shape:
  assumes len: "length b mod 4 = (4 - p) mod 4" and p: "p \<le> 2"
  shows "(if length b mod 4 \<noteq> 0 then b @ replicate (4 - length b mod 4) x else b)
         = b @ replicate p x"
proof -
  from p consider "p = 0" | "p = 1" | "p = 2" by linarith
  then show ?thesis using len by cases simp_all
qed

lemma of_nat_unat_list: "map of_nat (map unat ws) = (ws :: 16 word list)"
  by (simp add: comp_def)

lemma bytes_small:
  assumes "\<not> list_ex (\<lambda>c. c > 0xFF) (t :: 16 word list)"
  shows "list_all (\<lambda>b. b < 256) (map unat t)"
proof -
  have "unat c < 256" if "c \<in> set t" for c
  proof -
    from assms that have "c \<le> 0xFF" by (auto simp add: list_ex_iff not_less)
    then show ?thesis by (simp add: word_le_nat_alt)
  qed
  then show ?thesis by (simp add: list_all_iff)
qed


text \<open>
  C8, as stated, fails on Unicode input: \<open>btoa\<close> raises on a code unit above
  \<open>0xFF\<close>, and \<open>encryptId\<close> does not catch it. For the one-character string U+5E79
  the call \<open>encryptId(x)\<close> throws, so \<open>decryptId(encryptId(x))\<close> yields no value.
\<close>

theorem C8_unicode_counterexample: "roundtrip [0x5E79] = Inl InvalidCharacterError"
  by (simp add: roundtrip_def encryptId_def btoa_def xor_with_key_def KEY_def js_def)

text \<open>
  C8, amended. \<open>decryptId(encryptId(x)) = x\<close> holds exactly for the strings whose
  code units are all at most \<open>0xFF\<close>, which include the ASCII strings and the empty
  string (mapped to itself by both functions); on every other string \<open>encryptId\<close>
  raises \<open>InvalidCharacterError\<close>.
\<close>

theorem C8_roundtrip:
  "roundtrip x = (if list_ex (\<lambda>c. c > 0xFF) x then Inl InvalidCharacterError else Inr x)
   \<and> encryptId [] = Inr [] \<and> decryptId [] = []"
proof -
  have empty: "encryptId [] = Inr []" "decryptId [] = []"
    by (simp_all add: encryptId_def decryptId_def)
  have main: "roundtrip x = (if list_ex (\<lambda>c. c > 0xFF) x then Inl InvalidCharacterError else Inr x)"
  proof (cases "x = []")
    case True
    then show ?thesis by (simp add: roundtrip_def empty)
  next
    case ne: False
    let ?t = "xor_with_key x"
    show ?thesis
    proof (cases "list_ex (\<lambda>c. c > 0xFF) x")
      case True
      then have "list_ex (\<lambda>c. c > 0xFF) ?t" by (simp add: xor_with_key_bytes)
      with ne True show ?thesis by (simp add: roundtrip_def encryptId_def btoa_def)
    next
      case False
      then have okt: "\<not> list_ex (\<lambda>c. c > 0xFF) ?t" by (simp add: xor_with_key_bytes)
      let ?bs = "map unat ?t"
      let ?vs = "sextets ?bs"
      let ?p = "npad ?bs"
      let ?body = "map b64_char ?vs"
      have bs: "list_all (\<lambda>b. b < 256) ?bs" using okt by (rule bytes_small)
      have small: "list_all (\<lambda>v. v < 64) ?vs" using bs by (rule sextets_small)
      have len: "length ?vs mod 4 = (4 - ?p) mod 4" and p: "?p \<le> 2"
        using sextets_length [of ?bs] by simp_all
      have "length ?bs = length x" by simp
      with ne have bsne: "?bs \<noteq> []" by (metis length_0_conv)
      have vsne: "?vs \<noteq> []" using bsne by (rule sextets_nonempty)
      have enc: "encryptId x = Inr (map url_safe ?body)"
        using ne okt
        by (simp add: encryptId_def btoa_def replace_to_url_safe b64enc_shape
            strip_trailing_eq_shape [OF small] del: map_map map_append)
      have restored: "map url_unsafe (map url_safe ?body) = ?body"
        using small by (rule url_unsafe_safe)
      have lenb: "length ?body mod 4 = (4 - ?p) mod 4" using len by simp
      have yne: "map url_safe ?body \<noteq> []" using vsne by simp
      have padded: "(if length ?body mod 4 \<noteq> 0
                     then ?body @ replicate (4 - length ?body mod 4) 0x3D else ?body)
                    = ?body @ replicate ?p 0x3D"
        using lenb p by (rule pad_shape)
      have "decryptId (map url_safe ?body)
            = (case atob (if length ?body mod 4 \<noteq> 0
                          then ?body @ replicate (4 - length ?body mod 4) 0x3D else ?body) of
                 Inl e \<Rightarrow> [] | Inr text \<Rightarrow> xor_with_key text)"
        unfolding decryptId_def Let_def replace_to_url_unsafe restored
        using yne by (simp only: if_False)
      also have "\<dots> = xor_with_key (map of_nat (b64dec ?vs))"
        by (simp only: padded atob_shape [OF small len p] sum.case)
      finally have dec: "decryptId (map url_safe ?body) = xor_with_key (map of_nat (b64dec ?vs))" .
      have "map of_nat (b64dec ?vs) = ?t"
        by (simp only: b64dec_sextets [OF bs] of_nat_unat_list)
      with dec have "decryptId (map url_safe ?body) = x"
        by (simp only: xor_with_key_involution)
      with enc have "roundtrip x = Inr x" by (simp only: roundtrip_def sum.case)
      with False show ?thesis by simp
    qed
  qed
  from main empty show ?thesis by (intro conjI)
qed
end
